theory Spec2Isabelle
  imports Complex_Main "HOL-Library.Word" "HOL-Library.Sublist"
begin

section \<open>Strings, JSON values and the platform\<close>

text \<open>
  A JavaScript string is a sequence of UTF-16 code units. ASCII literals of the script are
  written through \<open>ascii\<close>.
\<close>

type_synonym ustring = "16 word list"

definition ascii :: "string \<Rightarrow> ustring" where
  "ascii s = map of_char s"

text \<open>
  The values \<open>JSON.parse\<close> produces. A number is a finite one or an infinity, which a
  number text too large for a double is read as; the two zeros are one value here, as they
  are for \<open>===\<close>. An object is the list of its own properties in property order, each key
  once.
\<close>

datatype number = Finite real | PosInfinity | NegInfinity

datatype json =
    JNull
  | JBool bool
  | JNum number
  | JStr ustring
  | JArr "json list"
  | JObj "(ustring \<times> json) list"

definition digit :: "16 word \<Rightarrow> bool" where
  "digit c \<longleftrightarrow> 0x30 \<le> c \<and> c \<le> 0x39"

section \<open>JSON.stringify and JSON.parse\<close>

text \<open>
  The two built-ins the store goes through, after ECMA-262, for the values above.
  \<open>QuoteJSONString\<close>: the seven short escapes; \<open>\u\<close> and four lowercase hexadecimal digits for
  a code unit below the space and for a surrogate that is not half of a pair; every other
  code unit, the two halves of a pair included, as it is.
\<close>

definition hex_unit :: "nat \<Rightarrow> 16 word" where
  "hex_unit d = (if d < 10 then 0x30 + of_nat d else 0x57 + of_nat d)"

definition UnicodeEscape :: "16 word \<Rightarrow> ustring" where
  "UnicodeEscape c =
     [0x5C, 0x75, hex_unit (unat c div 4096), hex_unit (unat c div 256 mod 16),
      hex_unit (unat c div 16 mod 16), hex_unit (unat c mod 16)]"

definition lead_surrogate :: "16 word \<Rightarrow> bool" where
  "lead_surrogate c \<longleftrightarrow> 0xD800 \<le> c \<and> c \<le> 0xDBFF"

definition trail_surrogate :: "16 word \<Rightarrow> bool" where
  "trail_surrogate c \<longleftrightarrow> 0xDC00 \<le> c \<and> c \<le> 0xDFFF"

definition quote_unit :: "16 word \<Rightarrow> ustring" where
  "quote_unit c =
     (if c = 0x08 then [0x5C, 0x62]
      else if c = 0x09 then [0x5C, 0x74]
      else if c = 0x0A then [0x5C, 0x6E]
      else if c = 0x0C then [0x5C, 0x66]
      else if c = 0x0D then [0x5C, 0x72]
      else if c = 0x22 then [0x5C, 0x22]
      else if c = 0x5C then [0x5C, 0x5C]
      else if c < 0x20 \<or> lead_surrogate c \<or> trail_surrogate c then UnicodeEscape c
      else [c])"

fun quote_units :: "ustring \<Rightarrow> ustring" where
  "quote_units [] = []"
| "quote_units [c] = quote_unit c"
| "quote_units (c # d # cs) =
     (if lead_surrogate c \<and> trail_surrogate d then c # d # quote_units cs
      else quote_unit c @ quote_units (d # cs))"

definition QuoteJSONString :: "ustring \<Rightarrow> ustring" where
  "QuoteJSONString s = [0x22] @ quote_units s @ [0x22]"

text \<open>
  \<open>SerializeJSONProperty\<close> with the gap of two spaces that \<open>JSON.stringify(data, null, 2)\<close>
  asks for: an empty array is \<open>[]\<close> and an empty object \<open>{}\<close>; otherwise each element or
  member is on a line of its own, indented by one gap more, with \<open>": "\<close> after a key; a
  number that is not finite is written \<open>null\<close>.
\<close>

fun join_with :: "ustring \<Rightarrow> ustring list \<Rightarrow> ustring" where
  "join_with sep [] = []"
| "join_with sep [p] = p"
| "join_with sep (p # q # ps) = p @ sep @ join_with sep (q # ps)"

fun SerializeJSONProperty :: "(real \<Rightarrow> ustring) \<Rightarrow> ustring \<Rightarrow> json \<Rightarrow> ustring" where
  "SerializeJSONProperty T indent JNull = ascii ''null''"
| "SerializeJSONProperty T indent (JBool b) = (if b then ascii ''true'' else ascii ''false'')"
| "SerializeJSONProperty T indent (JNum x) =
     (case x of Finite r \<Rightarrow> T r | _ \<Rightarrow> ascii ''null'')"
| "SerializeJSONProperty T indent (JStr s) = QuoteJSONString s"
| "SerializeJSONProperty T indent (JArr vs) =
     (if vs = [] then ascii ''[]''
      else [0x5B, 0x0A] @ (indent @ ascii ''  '') @
           join_with ([0x2C, 0x0A] @ (indent @ ascii ''  ''))
             (map (SerializeJSONProperty T (indent @ ascii ''  '')) vs) @
           [0x0A] @ indent @ [0x5D])"
| "SerializeJSONProperty T indent (JObj kvs) =
     (if kvs = [] then ascii ''{}''
      else [0x7B, 0x0A] @ (indent @ ascii ''  '') @
           join_with ([0x2C, 0x0A] @ (indent @ ascii ''  ''))
             (map (\<lambda>kv. QuoteJSONString (fst kv) @ [0x3A, 0x20] @
                          SerializeJSONProperty T (indent @ ascii ''  '') (snd kv)) kvs) @
           [0x0A] @ indent @ [0x7D])"

text \<open>
  \<open>JSON.parse\<close>. White space is tab, line feed, carriage return and space. A string holds
  any code unit from the space on other than the quote and the backslash, and the escapes
  \<open>\" \\ \/ \b \f \n \r \t\<close> and \<open>\u\<close> with four hexadecimal digits of either case.
\<close>

definition json_ws :: "16 word \<Rightarrow> bool" where
  "json_ws c \<longleftrightarrow> c = 0x09 \<or> c = 0x0A \<or> c = 0x0D \<or> c = 0x20"

definition num_unit :: "16 word \<Rightarrow> bool" where
  "num_unit c \<longleftrightarrow> digit c \<or> c = 0x2D \<or> c = 0x2B \<or> c = 0x2E \<or> c = 0x65 \<or> c = 0x45"

definition hex_value :: "16 word \<Rightarrow> nat option" where
  "hex_value c =
     (if 0x30 \<le> c \<and> c \<le> 0x39 then Some (unat c - 0x30)
      else if 0x61 \<le> c \<and> c \<le> 0x66 then Some (unat c - 0x57)
      else if 0x41 \<le> c \<and> c \<le> 0x46 then Some (unat c - 0x37)
      else None)"

definition hex4 :: "16 word \<Rightarrow> 16 word \<Rightarrow> 16 word \<Rightarrow> 16 word \<Rightarrow> 16 word option" where
  "hex4 a b c d =
     (case (hex_value a, hex_value b, hex_value c, hex_value d) of
        (Some p, Some q, Some r, Some s) \<Rightarrow> Some (of_nat (((p * 16 + q) * 16 + r) * 16 + s))
      | _ \<Rightarrow> None)"

definition unescape :: "16 word \<Rightarrow> 16 word option" where
  "unescape e =
     (if e = 0x22 then Some 0x22
      else if e = 0x5C then Some 0x5C
      else if e = 0x2F then Some 0x2F
      else if e = 0x62 then Some 0x08
      else if e = 0x66 then Some 0x0C
      else if e = 0x6E then Some 0x0A
      else if e = 0x72 then Some 0x0D
      else if e = 0x74 then Some 0x09
      else None)"

definition after :: "'a \<Rightarrow> ('a list \<times> 'b) option \<Rightarrow> ('a list \<times> 'b) option" where
  "after x r = map_option (\<lambda>(xs, rest). (x # xs, rest)) r"

fun parse_units :: "ustring \<Rightarrow> (ustring \<times> ustring) option" where
  "parse_units [] = None"
| "parse_units (c # cs) =
     (if c = 0x22 then Some ([], cs)
      else if c = 0x5C then
        (case cs of
           [] \<Rightarrow> None
         | e # r \<Rightarrow>
             if e = 0x75 then
               (case r of
                  h1 # h2 # h3 # h4 # r' \<Rightarrow>
                    (case hex4 h1 h2 h3 h4 of
                       None \<Rightarrow> None
                     | Some u \<Rightarrow> after u (parse_units r'))
                | _ \<Rightarrow> None)
             else
               (case unescape e of
                  None \<Rightarrow> None
                | Some u \<Rightarrow> after u (parse_units r)))
      else if c < 0x20 then None
      else after c (parse_units cs))"

text \<open>
  The properties of a parsed object are created in the order of the members. A key that is
  there already keeps its place and takes the new value; a new key that is an array index
  (a canonical decimal numeral up to \<open>2^32 - 2\<close>) goes among the array indices, in ascending
  order, which come before every other key; any other new key goes last.
\<close>

definition decimal_value :: "ustring \<Rightarrow> nat" where
  "decimal_value k = foldl (\<lambda>a c. a * 10 + (unat c - 0x30)) 0 k"

definition array_index :: "ustring \<Rightarrow> nat option" where
  "array_index k =
     (if k \<noteq> [] \<and> list_all digit k \<and> (hd k = 0x30 \<longrightarrow> length k = 1) \<and>
         decimal_value k \<le> 4294967294
      then Some (decimal_value k) else None)"

fun insert_index :: "nat \<Rightarrow> ustring \<times> json \<Rightarrow> (ustring \<times> json) list \<Rightarrow> (ustring \<times> json) list" where
  "insert_index i p [] = [p]"
| "insert_index i p (q # qs) =
     (case array_index (fst q) of
        Some j \<Rightarrow> if j < i then q # insert_index i p qs else p # q # qs
      | None \<Rightarrow> p # q # qs)"

definition CreateDataProperty ::
  "(ustring \<times> json) list \<Rightarrow> ustring \<times> json \<Rightarrow> (ustring \<times> json) list" where
  "CreateDataProperty obj p =
     (if fst p \<in> fst ` set obj then map (\<lambda>q. if fst q = fst p then p else q) obj
      else (case array_index (fst p) of
              Some i \<Rightarrow> insert_index i p obj
            | None \<Rightarrow> obj @ [p]))"

definition build_object :: "(ustring \<times> json) list \<Rightarrow> (ustring \<times> json) list" where
  "build_object ms = foldl CreateDataProperty [] ms"

text \<open>
  The value at the start of a text, and the text after it. A number is the longest run of
  code units a number text is made of, converted by the runtime; no other token can follow a
  number without a separator, so a run that is not a number text is an error in either
  reading. The counter bounds the elements and members still to come and their nesting; the
  length of the text is enough for it, since each of them costs a code unit.
\<close>

fun parse_value :: "(ustring \<Rightarrow> number option) \<Rightarrow> nat \<Rightarrow> ustring \<Rightarrow> (json \<times> ustring) option"
  and parse_elements ::
    "(ustring \<Rightarrow> number option) \<Rightarrow> nat \<Rightarrow> ustring \<Rightarrow> (json list \<times> ustring) option"
  and parse_members ::
    "(ustring \<Rightarrow> number option) \<Rightarrow> nat \<Rightarrow> ustring \<Rightarrow> ((ustring \<times> json) list \<times> ustring) option"
where
  "parse_value N n s =
     (case dropWhile json_ws s of
        [] \<Rightarrow> None
      | c # r \<Rightarrow>
          if c = 0x22 then map_option (\<lambda>(t, rest). (JStr t, rest)) (parse_units r)
          else if c = 0x5B then
            (case dropWhile json_ws r of
               [] \<Rightarrow> None
             | d # r' \<Rightarrow>
                 if d = 0x5D then Some (JArr [], r')
                 else map_option (\<lambda>(vs, rest). (JArr vs, rest)) (parse_elements N n r))
          else if c = 0x7B then
            (case dropWhile json_ws r of
               [] \<Rightarrow> None
             | d # r' \<Rightarrow>
                 if d = 0x7D then Some (JObj [], r')
                 else map_option (\<lambda>(ms, rest). (JObj (build_object ms), rest))
                        (parse_members N n r))
          else if take 4 (c # r) = ascii ''null'' then Some (JNull, drop 4 (c # r))
          else if take 4 (c # r) = ascii ''true'' then Some (JBool True, drop 4 (c # r))
          else if take 5 (c # r) = ascii ''false'' then Some (JBool False, drop 5 (c # r))
          else if c = 0x2D \<or> digit c then
            (case N (takeWhile num_unit (c # r)) of
               None \<Rightarrow> None
             | Some x \<Rightarrow> Some (JNum x, dropWhile num_unit (c # r)))
          else None)"
| "parse_elements N 0 s = None"
| "parse_elements N (Suc n) s =
     (case parse_value N n s of
        None \<Rightarrow> None
      | Some (v, r) \<Rightarrow>
          (case dropWhile json_ws r of
             [] \<Rightarrow> None
           | c # r' \<Rightarrow>
               if c = 0x2C then after v (parse_elements N n r')
               else if c = 0x5D then Some ([v], r')
               else None))"
| "parse_members N 0 s = None"
| "parse_members N (Suc n) s =
     (case dropWhile json_ws s of
        [] \<Rightarrow> None
      | c # r \<Rightarrow>
          if c = 0x22 then
            (case parse_units r of
               None \<Rightarrow> None
             | Some (k, r1) \<Rightarrow>
                 (case dropWhile json_ws r1 of
                    [] \<Rightarrow> None
                  | d # r2 \<Rightarrow>
                      if d = 0x3A then
                        (case parse_value N n r2 of
                           None \<Rightarrow> None
                         | Some (v, r3) \<Rightarrow>
                             (case dropWhile json_ws r3 of
                                [] \<Rightarrow> None
                              | e # r4 \<Rightarrow>
                                  if e = 0x2C then after (k, v) (parse_members N n r4)
                                  else if e = 0x7D then Some ([(k, v)], r4)
                                  else None))
                      else None))
          else None)"

declare parse_value.simps [simp del]

definition ParseJSON :: "(ustring \<Rightarrow> number option) \<Rightarrow> ustring \<Rightarrow> json option" where
  "ParseJSON N t =
     (case parse_value N (length t) t of
        None \<Rightarrow> None
      | Some (v, rest) \<Rightarrow> if dropWhile json_ws rest = [] then Some v else None)"

text \<open>
  The values that are written the way they are read: every finite number is written as a
  number text that converts back to it, no number is infinite, and the keys of an object
  are distinct and none is an array index.
\<close>

definition number_reads_back ::
  "(real \<Rightarrow> ustring) \<Rightarrow> (ustring \<Rightarrow> number option) \<Rightarrow> real \<Rightarrow> bool" where
  "number_reads_back T N r \<longleftrightarrow>
     T r \<noteq> [] \<and> (hd (T r) = 0x2D \<or> digit (hd (T r))) \<and> list_all num_unit (T r) \<and>
     N (T r) = Some (Finite r)"

fun reads_back :: "(real \<Rightarrow> ustring) \<Rightarrow> (ustring \<Rightarrow> number option) \<Rightarrow> json \<Rightarrow> bool" where
  "reads_back T N JNull = True"
| "reads_back T N (JBool b) = True"
| "reads_back T N (JNum x) = (case x of Finite r \<Rightarrow> number_reads_back T N r | _ \<Rightarrow> False)"
| "reads_back T N (JStr s) = True"
| "reads_back T N (JArr vs) = list_all (reads_back T N) vs"
| "reads_back T N (JObj kvs) =
     (distinct (map fst kvs) \<and>
      list_all (\<lambda>kv. array_index (fst kv) = None \<and> reads_back T N (snd kv)) kvs)"

text \<open>A code unit a serialized value can start with.\<close>

definition value_start :: "16 word \<Rightarrow> bool" where
  "value_start c \<longleftrightarrow> \<not> json_ws c \<and> c \<noteq> 0x5D \<and> c \<noteq> 0x7D"

text \<open>A value serialized at an indentation is read back, whatever follows that is no part of a number.\<close>

definition reads_at ::
  "(real \<Rightarrow> ustring) \<Rightarrow> (ustring \<Rightarrow> number option) \<Rightarrow> ustring \<Rightarrow> json \<Rightarrow> bool" where
  "reads_at T N indent v \<longleftrightarrow>
     (\<forall>n rest. length (SerializeJSONProperty T indent v @ rest) \<le> n \<longrightarrow>
        (rest = [] \<or> \<not> num_unit (hd rest)) \<longrightarrow>
        parse_value N n (SerializeJSONProperty T indent v @ rest) = Some (v, rest))"

section \<open>The platform\<close>

text \<open>
  What the script takes from the JavaScript runtime and does not define itself:
  \<open>String.prototype.toLowerCase\<close> and \<open>String.prototype.normalize("NFKD")\<close>, both driven by
  the Unicode tables; \<open>Number::toString\<close> of a finite number and the value of a JSON number
  text (\<open>None\<close> when the text is not one), both a matter of floating point;
  \<open>JSON.parse\<close> (\<open>None\<close> is its \<open>SyntaxError\<close>) and \<open>JSON.stringify(_, null, 2)\<close>.
\<close>

record platform =
  toLowerCase :: "ustring \<Rightarrow> ustring"
  normalizeNFKD :: "ustring \<Rightarrow> ustring"
  Number_toString :: "real \<Rightarrow> ustring"
  StringToNumber :: "ustring \<Rightarrow> number option"
  JSON_parse :: "ustring \<Rightarrow> json option"
  JSON_stringify :: "json \<Rightarrow> ustring"

definition is_ascii :: "16 word \<Rightarrow> bool" where
  "is_ascii c \<longleftrightarrow> c < 0x80"

definition ascii_lower :: "16 word \<Rightarrow> 16 word" where
  "ascii_lower c = (if 0x41 \<le> c \<and> c \<le> 0x5A then c + 0x20 else c)"

text \<open>
  The part of the Unicode tables the proofs rely on: on a string of ASCII code units,
  lower-casing maps \<open>A\<close>..\<open>Z\<close> to \<open>a\<close>..\<open>z\<close> and nothing else, and NFKD changes nothing.
\<close>

definition ascii_conformant :: "platform \<Rightarrow> bool" where
  "ascii_conformant rt \<longleftrightarrow>
     (\<forall>s. list_all is_ascii s \<longrightarrow>
        toLowerCase rt s = map ascii_lower s \<and> normalizeNFKD rt s = s)"

text \<open>
  A runtime whose \<open>JSON.parse\<close> and \<open>JSON.stringify\<close> are the two algorithms above, on its own
  conversions of numbers.
\<close>

definition ecma_json :: "platform \<Rightarrow> bool" where
  "ecma_json rt \<longleftrightarrow>
     JSON_parse rt = ParseJSON (StringToNumber rt) \<and>
     JSON_stringify rt = SerializeJSONProperty (Number_toString rt) []"

text \<open>
  A runtime that knows the ASCII rows of the Unicode tables only and the conversions of two
  number texts only, with the parser and the serializer above; the theorems are instantiated
  with it at concrete inputs.
\<close>

definition crabby_store :: "json list" where
  "crabby_store =
     [JObj [(ascii ''slug'', JStr (ascii ''crabby-bills''))],
      JObj [(ascii ''slug'', JStr (ascii ''crabby-bills-12345''))]]"

definition ascii_platform :: platform where
  "ascii_platform =
     \<lparr> toLowerCase = map ascii_lower,
       normalizeNFKD = (\<lambda>s. s),
       Number_toString = (\<lambda>x. if x = 0 then ascii ''0'' else []),
       StringToNumber = [ascii ''0'' \<mapsto> Finite 0, ascii ''1e999'' \<mapsto> PosInfinity],
       JSON_parse =
         ParseJSON [ascii ''0'' \<mapsto> Finite 0, ascii ''1e999'' \<mapsto> PosInfinity],
       JSON_stringify =
         SerializeJSONProperty (\<lambda>x. if x = 0 then ascii ''0'' else []) [] \<rparr>"

section \<open>slugify\<close>

text \<open>\<open>String.prototype.trim\<close> removes WhiteSpace and LineTerminator code units at both ends.\<close>

definition white_space :: "16 word \<Rightarrow> bool" where
  "white_space c \<longleftrightarrow>
     c = 0x09 \<or> c = 0x0A \<or> c = 0x0B \<or> c = 0x0C \<or> c = 0x0D \<or> c = 0x20 \<or> c = 0xA0 \<or>
     c = 0x1680 \<or> (0x2000 \<le> c \<and> c \<le> 0x200A) \<or> c = 0x2028 \<or> c = 0x2029 \<or>
     c = 0x202F \<or> c = 0x205F \<or> c = 0x3000 \<or> c = 0xFEFF"

definition trim :: "ustring \<Rightarrow> ustring" where
  "trim s = rev (dropWhile white_space (rev (dropWhile white_space s)))"

text \<open>The character classes of the regular expressions in \<open>slugify\<close>.\<close>

definition apostrophe :: "16 word \<Rightarrow> bool" where
  "apostrophe c \<longleftrightarrow> c = 0x27 \<or> c = 0x2019"

definition alnum :: "16 word \<Rightarrow> bool" where
  "alnum c \<longleftrightarrow> (0x61 \<le> c \<and> c \<le> 0x7A) \<or> (0x30 \<le> c \<and> c \<le> 0x39)"

definition hyphen :: "16 word \<Rightarrow> bool" where
  "hyphen c \<longleftrightarrow> c = 0x2D"

text \<open>\<open>.replace(/&/g, " and ")\<close>\<close>

definition replace_amp :: "ustring \<Rightarrow> ustring" where
  "replace_amp s = concat (map (\<lambda>c. if c = 0x26 then ascii '' and '' else [c]) s)"

text \<open>
  \<open>.replace(/C+/g, r)\<close> for a character class \<open>C\<close>: the scan goes left to right, a match
  takes the longest run of \<open>C\<close> and is replaced by \<open>r\<close>, any other code unit is kept.
\<close>

function replace_runs :: "('a \<Rightarrow> bool) \<Rightarrow> 'a list \<Rightarrow> 'a list \<Rightarrow> 'a list" where
  "replace_runs C r [] = []"
| "replace_runs C r (c # cs) =
     (if C c then r @ replace_runs C r (dropWhile C cs) else c # replace_runs C r cs)"
  by pat_completeness auto
termination
  by (relation "measure (\<lambda>(C, r, s). length s)")
     (auto simp: length_dropWhile_le less_Suc_eq_le)

text \<open>
  \<open>.replace(/^-+|-+$/g, "")\<close>: at position 0 the first alternative removes the leading run
  of hyphens; at a later position only \<open>-+$\<close> can match, and it does when everything from
  there to the end is hyphens.
\<close>

fun strip_trailing :: "ustring \<Rightarrow> ustring" where
  "strip_trailing [] = []"
| "strip_trailing (c # cs) =
     (if list_all hyphen (c # cs) then [] else c # strip_trailing cs)"

definition strip_hyphens :: "ustring \<Rightarrow> ustring" where
  "strip_hyphens s = strip_trailing (dropWhile hyphen s)"

text \<open>
  \<open>slugify\<close>, lines 13 to 23. Every caller passes a string, on which \<open>String(str || "")\<close>
  is the identity.
\<close>

definition slugify :: "platform \<Rightarrow> ustring \<Rightarrow> ustring" where
  "slugify rt str =
     replace_runs hyphen (ascii ''-'')
       (strip_hyphens
         (replace_runs (\<lambda>c. \<not> alnum c) (ascii ''-'')
           (replace_amp
             (filter (\<lambda>c. \<not> apostrophe c)
               (normalizeNFKD rt (toLowerCase rt (trim str)))))))"

text \<open>Two neighbouring code units of a string are both in the class \<open>C\<close>.\<close>

fun adjacent :: "('a \<Rightarrow> bool) \<Rightarrow> 'a list \<Rightarrow> bool" where
  "adjacent C (c # d # cs) = ((C c \<and> C d) \<or> adjacent C (d # cs))"
| "adjacent C [c] = False"
| "adjacent C [] = False"

definition slug_unit :: "16 word \<Rightarrow> bool" where
  "slug_unit c \<longleftrightarrow> alnum c \<or> hyphen c"

section \<open>Lists of answers and lookup tables\<close>

text \<open>\<open>String.prototype.split(",")\<close>: the pieces between the commas, the empty ones included.\<close>

fun split_comma :: "ustring \<Rightarrow> ustring list" where
  "split_comma [] = [[]]"
| "split_comma (c # cs) =
     (if c = 0x2C then [] # split_comma cs
      else (case split_comma cs of p # ps \<Rightarrow> (c # p) # ps | [] \<Rightarrow> [[c]]))"

text \<open>\<open>parseList\<close>, lines 35 to 40; \<open>filter(Boolean)\<close> keeps the non-empty strings.\<close>

definition parseList :: "ustring \<Rightarrow> ustring list" where
  "parseList inputStr = filter (\<lambda>s. s \<noteq> []) (map trim (split_comma inputStr))"

text \<open>
  \<open>v?.k\<close> for one of the keys \<open>key\<close>, \<open>id\<close>, \<open>slug\<close>, \<open>name\<close>; \<open>None\<close> is \<open>undefined\<close>. Only an
  object can have such a property: \<open>null\<close> is stopped by \<open>?.\<close>, and no prototype of a string,
  number, boolean or array defines one of these four names.
\<close>

fun property :: "json \<Rightarrow> string \<Rightarrow> json option" where
  "property (JObj kvs) k = map_of kvs (ascii k)"
| "property _ k = None"

text \<open>\<open>a ?? b\<close>, with a right operand that is never \<open>undefined\<close>.\<close>

fun coalesce :: "json option \<Rightarrow> json \<Rightarrow> json" where
  "coalesce None b = b"
| "coalesce (Some JNull) b = b"
| "coalesce (Some v) b = v"

text \<open>\<open>Boolean(v)\<close>\<close>

fun truthy :: "json \<Rightarrow> bool" where
  "truthy JNull = False"
| "truthy (JBool b) = b"
| "truthy (JNum (Finite x)) = (x \<noteq> 0)"
| "truthy (JNum PosInfinity) = True"
| "truthy (JNum NegInfinity) = True"
| "truthy (JStr s) = (s \<noteq> [])"
| "truthy (JArr vs) = True"
| "truthy (JObj kvs) = True"

text \<open>\<open>extractAreaKeys\<close>, lines 42 to 48.\<close>

definition extractAreaKeys :: "json \<Rightarrow> json list" where
  "extractAreaKeys areasJson =
     (case areasJson of
        JArr as \<Rightarrow>
          filter truthy
            (map (\<lambda>a. coalesce (property a ''key'')
                        (coalesce (property a ''id'') (coalesce (property a ''slug'') JNull))) as)
      | _ \<Rightarrow> [])"

text \<open>\<open>extractCuisineNames\<close>, lines 50 to 57.\<close>

definition extractCuisineNames :: "json \<Rightarrow> json list" where
  "extractCuisineNames cuisinesJson =
     (case cuisinesJson of
        JArr cs \<Rightarrow>
          (case cs of
             JStr s # rest \<Rightarrow> cs
           | _ \<Rightarrow>
               filter truthy
                 (map (\<lambda>c. coalesce (property c ''name'')
                             (coalesce (property c ''key'') (coalesce (property c ''id'') JNull))) cs))
      | _ \<Rightarrow> [])"

text \<open>
  A table of an unrecognised shape: a value that is not an array, or an array of entries
  that resolve to nothing, each having none of the fields looked for, or \<open>null\<close> in them (and,
  for the cuisines, not starting with a string).
\<close>

definition unresolvable :: "string list \<Rightarrow> json \<Rightarrow> bool" where
  "unresolvable ks a \<longleftrightarrow> list_all (\<lambda>k. property a k = None \<or> property a k = Some JNull) ks"

definition unrecognised_areas :: "json \<Rightarrow> bool" where
  "unrecognised_areas v =
     (case v of
        JArr as \<Rightarrow> list_all (unresolvable [''key'', ''id'', ''slug'']) as
      | _ \<Rightarrow> True)"

definition unrecognised_cuisines :: "json \<Rightarrow> bool" where
  "unrecognised_cuisines v =
     (case v of
        JArr cs \<Rightarrow>
          (case cs of
             JStr s # rest \<Rightarrow> False
           | _ \<Rightarrow> list_all (unresolvable [''name'', ''key'', ''id'']) cs)
      | _ \<Rightarrow> True)"

text \<open>
  \<open>Array.prototype.join\<close> turns each element other than \<open>null\<close> into a string. On a parsed
  object this throws a \<open>TypeError\<close> exactly when the object has an own property \<open>toString\<close>
  (a JSON value is never callable, and the inherited \<open>valueOf\<close> returns the object); an array
  is joined in turn; every other value has a string form.
\<close>

fun toString_throws :: "json \<Rightarrow> bool" where
  "toString_throws (JObj kvs) = (ascii ''toString'' \<in> fst ` set kvs)"
| "toString_throws (JArr vs) = list_ex toString_throws vs"
| "toString_throws v = False"

definition join_throws :: "json list \<Rightarrow> bool" where
  "join_throws vs = list_ex toString_throws vs"

text \<open>\<open>yesNoToBool\<close>, lines 73 to 79.\<close>

definition yesNoToBool :: "platform \<Rightarrow> ustring \<Rightarrow> bool \<Rightarrow> bool" where
  "yesNoToBool rt s defaultVal =
     (let v = toLowerCase rt (trim s) in
      if v = [] then defaultVal
      else if v \<in> set (map ascii [''y'', ''yes'', ''true'', ''1'']) then True
      else if v \<in> set (map ascii [''n'', ''no'', ''false'', ''0'']) then False
      else defaultVal)"

section \<open>Files\<close>

text \<open>
  A path is the list of its segments. The world is the file system the script sees: the
  text of each regular file, the directories, and the log of the paths written so far.
  Permissions and device errors are not represented: a write to a path succeeds.
\<close>

type_synonym path = "ustring list"

record world =
  files :: "path \<rightharpoonup> ustring"
  dirs :: "path set"
  writes :: "path list"

datatype error =
    ENOENT path
  | EEXIST path
  | ENOTDIR path
  | SyntaxError
  | TypeError
  | Error string

definition FILE_RESTAURANTS :: "path \<Rightarrow> path" where
  "FILE_RESTAURANTS ROOT = ROOT @ map ascii [''src'', ''data'', ''restaurants.json'']"

definition FILE_AREAS :: "path \<Rightarrow> path" where
  "FILE_AREAS ROOT = ROOT @ map ascii [''src'', ''data'', ''areas.json'']"

definition FILE_CUISINES :: "path \<Rightarrow> path" where
  "FILE_CUISINES ROOT = ROOT @ map ascii [''src'', ''data'', ''cuisines.json'']"

definition PLACEHOLDER :: "path \<Rightarrow> path" where
  "PLACEHOLDER ROOT = ROOT @ map ascii [''public'', ''images'', ''placeholder.jpg'']"

text \<open>\<open>readJson\<close>, lines 25 to 28: \<open>fs.readFile\<close> raises on a missing file, \<open>JSON.parse\<close> on a malformed text.\<close>

definition readJson :: "platform \<Rightarrow> world \<Rightarrow> path \<Rightarrow> error + json" where
  "readJson rt w file =
     (case files w file of
        None \<Rightarrow> Inl (ENOENT file)
      | Some txt \<Rightarrow>
          (case JSON_parse rt txt of
             None \<Rightarrow> Inl SyntaxError
           | Some v \<Rightarrow> Inr v))"

text \<open>\<open>writeJson\<close>, lines 30 to 33.\<close>

definition writeJson :: "platform \<Rightarrow> world \<Rightarrow> path \<Rightarrow> json \<Rightarrow> world" where
  "writeJson rt w file data =
     (let txt = JSON_stringify rt data @ [0x0A]
      in w\<lparr>files := (files w)(file \<mapsto> txt), writes := writes w @ [file]\<rparr>)"

text \<open>
  \<open>ensureDir\<close>, lines 59 to 61: \<open>fs.mkdir\<close> with \<open>recursive\<close> creates the directory and its
  missing parents, and raises when a regular file is at the path or on the way to it.
\<close>

definition ensureDir :: "world \<Rightarrow> path \<Rightarrow> error + world" where
  "ensureDir w dir =
     (if dir \<in> dom (files w) then Inl (EEXIST dir)
      else if list_ex (\<lambda>p. p \<in> dom (files w)) (prefixes dir) then Inl (ENOTDIR dir)
      else Inr (w\<lparr>dirs := dirs w \<union> set (prefixes dir)\<rparr>))"

text \<open>\<open>fs.access\<close> succeeds on a path that exists.\<close>

definition access :: "world \<Rightarrow> path \<Rightarrow> bool" where
  "access w p \<longleftrightarrow> p \<in> dom (files w) \<or> p \<in> dirs w"

text \<open>
  \<open>copyPlaceholderIfExists\<close>, lines 63 to 71: any failure of the access or of the copy is
  caught and answered by \<open>false\<close>; the copy succeeds when the placeholder is a regular file.
\<close>

definition copyPlaceholderIfExists :: "path \<Rightarrow> world \<Rightarrow> path \<Rightarrow> bool \<times> world" where
  "copyPlaceholderIfExists ROOT w destFile =
     (case files w (PLACEHOLDER ROOT) of
        None \<Rightarrow> (False, w)
      | Some img \<Rightarrow>
          (True, w\<lparr>files := (files w)(destFile \<mapsto> img), writes := writes w @ [destFile]\<rparr>))"

section \<open>main\<close>

text \<open>The operator's answers to the fourteen prompts, in the order they are asked.\<close>

record answers =
  q_name :: ustring
  q_slug :: ustring
  q_areaKey :: ustring
  q_address :: ustring
  q_price :: ustring
  q_cuisines :: ustring
  q_vibes :: ustring
  q_goodFor :: ustring
  q_shortBlurb :: ustring
  q_longBlurb :: ustring
  q_mustTry :: ustring
  q_website :: ustring
  q_menuUrl :: ustring
  q_featured :: ustring

text \<open>The object \<open>entry\<close> of lines 158 to 174.\<close>

record entry =
  name :: ustring
  slug :: ustring
  areaKey :: ustring
  address :: ustring
  price :: ustring
  cuisines :: "ustring list"
  vibes :: "ustring list"
  goodFor :: "ustring list"
  shortBlurb :: ustring
  longBlurb :: ustring
  mustTry :: "ustring list"
  website :: ustring
  menuUrl :: ustring
  photos :: "ustring list"
  featured :: bool

definition entry_json :: "entry \<Rightarrow> json" where
  "entry_json e =
     JObj [(ascii ''name'', JStr (name e)),
           (ascii ''slug'', JStr (slug e)),
           (ascii ''areaKey'', JStr (areaKey e)),
           (ascii ''address'', JStr (address e)),
           (ascii ''price'', JStr (price e)),
           (ascii ''cuisines'', JArr (map JStr (cuisines e))),
           (ascii ''vibes'', JArr (map JStr (vibes e))),
           (ascii ''goodFor'', JArr (map JStr (goodFor e))),
           (ascii ''shortBlurb'', JStr (shortBlurb e)),
           (ascii ''longBlurb'', JStr (longBlurb e)),
           (ascii ''mustTry'', JArr (map JStr (mustTry e))),
           (ascii ''website'', JStr (website e)),
           (ascii ''menuUrl'', JStr (menuUrl e)),
           (ascii ''photos'', JArr (map JStr (photos e))),
           (ascii ''featured'', JBool (featured e))]"

text \<open>
  \<open>Date.now().toString()\<close>: the clock is an integer number of milliseconds, far below the
  size from which a number prints with an exponent; \<open>.slice(-5)\<close> keeps the last five code
  units, or all of them when there are fewer.
\<close>

function digits :: "nat \<Rightarrow> ustring" where
  "digits n =
     (if n < 10 then [0x30 + of_nat n]
      else digits (n div 10) @ [0x30 + of_nat (n mod 10)])"
  by pat_completeness auto
termination
  by (relation "measure (\<lambda>n. n)") auto

declare digits.simps [simp del]

definition number_toString :: "int \<Rightarrow> ustring" where
  "number_toString n = (if 0 \<le> n then digits (nat n) else 0x2D # digits (nat (- n)))"

definition slice_last :: "nat \<Rightarrow> 'a list \<Rightarrow> 'a list" where
  "slice_last k s = drop (length s - k) s"

text \<open>Lines 85 to 92: the store and the two tables are read before the first prompt.\<close>

definition load :: "platform \<Rightarrow> path \<Rightarrow> world \<Rightarrow> error + (json list \<times> json list \<times> json list)" where
  "load rt ROOT w =
     (case readJson rt w (FILE_RESTAURANTS ROOT) of
        Inl e \<Rightarrow> Inl e
      | Inr restaurants \<Rightarrow>
          (case restaurants of
             JArr rs \<Rightarrow>
               (case readJson rt w (FILE_AREAS ROOT) of
                  Inl e \<Rightarrow> Inl e
                | Inr areas \<Rightarrow>
                    (case readJson rt w (FILE_CUISINES ROOT) of
                       Inl e \<Rightarrow> Inl e
                     | Inr cuisinesJson \<Rightarrow>
                         Inr (rs, extractAreaKeys areas, extractCuisineNames cuisinesJson)))
           | _ \<Rightarrow> Inl (Error ''restaurants.json must be a JSON array.'')))"

text \<open>Line 99: \<open>slugify(answer) || slugify(name)\<close>.\<close>

definition candidate_slug :: "platform \<Rightarrow> ustring \<Rightarrow> ustring \<Rightarrow> ustring" where
  "candidate_slug rt answer nm =
     (if slugify rt answer \<noteq> [] then slugify rt answer else slugify rt nm)"

text \<open>
  Line 103: \<open>new Set(restaurants.map(r => r?.slug).filter(Boolean))\<close>. The set is only asked
  for a string, so membership in the list of its elements decides \<open>has\<close>.
\<close>

definition existing :: "json list \<Rightarrow> json list" where
  "existing rs = filter truthy (List.map_filter (\<lambda>r. property r ''slug'') rs)"

text \<open>Lines 104 to 108.\<close>

definition unique_slug :: "int \<Rightarrow> json list \<Rightarrow> ustring \<Rightarrow> ustring" where
  "unique_slug now rs sl =
     (if JStr sl \<in> set (existing rs)
      then sl @ ascii ''-'' @ slice_last 5 (number_toString now)
      else sl)"

text \<open>
  Lines 96 to 137 and 143 to 174: the prompts and their checks, up to the entry. Nothing
  is written here. The two \<open>join\<close>s are those of the suggestion lines printed before the
  area and the cuisine prompts.
\<close>

definition collect ::
  "platform \<Rightarrow> int \<Rightarrow> answers \<Rightarrow> json list \<Rightarrow> json list \<Rightarrow> json list \<Rightarrow> error + entry" where
  "collect rt now a rs areaKeys cuisineNames =
     (let nm = trim (q_name a) in
      if nm = [] then Inl (Error ''Name is required.'')
      else let sl = candidate_slug rt (q_slug a) nm in
      if sl = [] then Inl (Error ''Could not generate slug.'')
      else let sl = unique_slug now rs sl in
      if areaKeys \<noteq> [] \<and> join_throws areaKeys then Inl TypeError
      else let ak = trim (q_areaKey a) in
      if ak = [] then Inl (Error ''areaKey is required.'')
      else let ad = trim (q_address a);
               pr = (if trim (q_price a) \<noteq> [] then trim (q_price a) else ascii ''$$'') in
      if cuisineNames \<noteq> [] \<and> join_throws cuisineNames then Inl TypeError
      else let cu = parseList (q_cuisines a) in
      if cu = [] then Inl (Error ''At least one cuisine is required.'')
      else Inr \<lparr> name = nm, slug = sl, areaKey = ak, address = ad, price = pr,
                 cuisines = cu,
                 vibes = parseList (q_vibes a),
                 goodFor = parseList (q_goodFor a),
                 shortBlurb = trim (q_shortBlurb a),
                 longBlurb = trim (q_longBlurb a),
                 mustTry = parseList (q_mustTry a),
                 website = trim (q_website a),
                 menuUrl = trim (q_menuUrl a),
                 photos = [ascii ''/images/restaurants/'' @ sl @ ascii ''/1.jpg''],
                 featured = yesNoToBool rt (q_featured a) False \<rparr>)"

text \<open>Lines 140 to 156: the photo folder, and the placeholder as first photo if there is none.\<close>

definition provision :: "path \<Rightarrow> world \<Rightarrow> ustring \<Rightarrow> error + world" where
  "provision ROOT w sl =
     (let photoFolder = ROOT @ map ascii [''public'', ''images'', ''restaurants''] @ [sl] in
      case ensureDir w photoFolder of
        Inl e \<Rightarrow> Inl e
      | Inr w1 \<Rightarrow>
          (let firstPhotoAbs = photoFolder @ [ascii ''1.jpg''] in
           if access w1 firstPhotoAbs then Inr w1
           else Inr (snd (copyPlaceholderIfExists ROOT w1 firstPhotoAbs))))"

text \<open>
  \<open>main\<close>, lines 81 to 192, on the clock \<open>now\<close> and the answers \<open>a\<close>: the error it rejects
  with or the entry it added, and the world it leaves.
\<close>

definition main ::
  "platform \<Rightarrow> path \<Rightarrow> int \<Rightarrow> answers \<Rightarrow> world \<Rightarrow> (error + entry) \<times> world" where
  "main rt ROOT now a w =
     (case load rt ROOT w of
        Inl e \<Rightarrow> (Inl e, w)
      | Inr (rs, areaKeys, cuisineNames) \<Rightarrow>
          (case collect rt now a rs areaKeys cuisineNames of
             Inl e \<Rightarrow> (Inl e, w)
           | Inr en \<Rightarrow>
               (case provision ROOT w (slug en) of
                  Inl e \<Rightarrow> (Inl e, w)
                | Inr w1 \<Rightarrow>
                    (Inr en,
                     writeJson rt w1 (FILE_RESTAURANTS ROOT) (JArr (rs @ [entry_json en]))))))"

text \<open>Lines 194 to 197: the exit status of the process.\<close>

definition run :: "platform \<Rightarrow> path \<Rightarrow> int \<Rightarrow> answers \<Rightarrow> world \<Rightarrow> nat \<times> world" where
  "run rt ROOT now a w =
     (case main rt ROOT now a w of
        (Inl e, w') \<Rightarrow> (1, w')
      | (Inr en, w') \<Rightarrow> (0, w'))"

section \<open>A small site\<close>

text \<open>
  Concrete inputs: a site whose store and tables are empty arrays, the same site with two
  records in the store, the same site with tables that are no tables, and the answers of an operator who adds Crabby Bills and leaves the
  slug prompt blank.
\<close>

definition site :: path where
  "site = [ascii ''site'']"

definition empty_site :: world where
  "empty_site =
     \<lparr> files = [FILE_RESTAURANTS site \<mapsto> ascii ''[]'',
                FILE_AREAS site \<mapsto> ascii ''[]'',
                FILE_CUISINES site \<mapsto> ascii ''[]''],
       dirs = set (prefixes (site @ map ascii [''src'', ''data''])),
       writes = [] \<rparr>"

definition crabby_site :: world where
  \<open>crabby_site =
     empty_site\<lparr>files := (files empty_site)
       (FILE_RESTAURANTS site \<mapsto>
          ascii ''[{"slug":"crabby-bills"},{"slug":"crabby-bills-12345"}]'')\<rparr>\<close>

definition odd_tables_site :: world where
  "odd_tables_site =
     empty_site\<lparr>files := (files empty_site)
       (FILE_AREAS site \<mapsto> ascii ''{}'', FILE_CUISINES site \<mapsto> ascii ''[null]'')\<rparr>"

definition crabby_answers :: answers where
  "crabby_answers =
     \<lparr> q_name = ascii ''Crabby Bills'', q_slug = [], q_areaKey = ascii ''fenwick-island'',
       q_address = [], q_price = [], q_cuisines = ascii ''Seafood, BBQ'', q_vibes = [],
       q_goodFor = [], q_shortBlurb = [], q_longBlurb = [], q_mustTry = [],
       q_website = [], q_menuUrl = [], q_featured = ascii ''y'' \<rparr>"

definition crabby_entry :: "ustring \<Rightarrow> ustring \<Rightarrow> entry" where
  "crabby_entry sl pr =
     \<lparr> name = ascii ''Crabby Bills'', slug = sl, areaKey = ascii ''fenwick-island'',
       address = [], price = pr, cuisines = [ascii ''Seafood'', ascii ''BBQ''], vibes = [],
       goodFor = [], shortBlurb = [], longBlurb = [], mustTry = [], website = [],
       menuUrl = [], photos = [ascii ''/images/restaurants/'' @ sl @ ascii ''/1.jpg''],
       featured = True \<rparr>"

section \<open>Properties of the scans\<close>

lemma ascii_hyphen: "ascii ''-'' = [0x2D]"
  by (simp add: ascii_def)

lemma dropWhile_head: "dropWhile C s = [] \<or> \<not> C (hd (dropWhile C s))"
  by (induction s) auto

lemma replace_runs_units:
  "set (replace_runs C r s) \<subseteq> set r \<union> {c \<in> set s. \<not> C c}"
proof (induction C r s rule: replace_runs.induct)
  case (1 C r)
  show ?case by simp
next
  case (2 C r c cs)
  show ?case
  proof (cases "C c")
    case True
    have "set (dropWhile C cs) \<subseteq> set cs" by (rule set_dropWhileD [THEN subsetI])
    with 2(1) [OF True] True show ?thesis by auto
  next
    case False
    with 2(2) [OF False] show ?thesis by auto
  qed
qed

lemma replace_runs_head:
  "s \<noteq> [] \<Longrightarrow> \<not> C (hd s) \<Longrightarrow>
   replace_runs C r s \<noteq> [] \<and> hd (replace_runs C r s) = hd s"
  by (cases s) auto

lemma replace_runs_no_adjacent:
  "C h \<Longrightarrow> \<not> adjacent C (replace_runs C [h] s)"
proof (induction C "[h]" s rule: replace_runs.induct)
  case (1 C)
  show ?case by simp
next
  case (2 C c cs)
  show ?case
  proof (cases "C c")
    case True
    let ?t = "dropWhile C cs"
    from 2(1) [OF True 2(3)] have ih: "\<not> adjacent C (replace_runs C [h] ?t)" .
    show ?thesis
    proof (cases ?t)
      case Nil
      with True show ?thesis by (simp del: dropWhile_eq_Nil_conv)
    next
      case (Cons d ds)
      with dropWhile_head [of C cs] have nd: "\<not> C d" by simp
      from ih Cons nd True show ?thesis by simp
    qed
  next
    case False
    from 2(2) [OF False 2(3)] have ih: "\<not> adjacent C (replace_runs C [h] cs)" .
    with False show ?thesis by (cases "replace_runs C [h] cs") auto
  qed
qed

lemma replace_runs_last:
  "s \<noteq> [] \<Longrightarrow> \<not> C (last s) \<Longrightarrow>
   replace_runs C r s \<noteq> [] \<and> last (replace_runs C r s) = last s"
proof (induction C r s rule: replace_runs.induct)
  case (1 C r)
  then show ?case by simp
next
  case (2 C r c cs)
  show ?case
  proof (cases "C c")
    case True
    let ?t = "dropWhile C cs"
    from True 2(4) have cs: "cs \<noteq> []" by auto
    with 2(4) have lc: "\<not> C (last cs)" by simp
    have split: "cs = takeWhile C cs @ ?t" by simp
    have tne: "?t \<noteq> []"
    proof
      assume "?t = []"
      then have "\<forall>x\<in>set cs. C x" by (simp add: dropWhile_eq_Nil_conv)
      with cs lc show False by (meson last_in_set)
    qed
    then have "last cs = last ?t" by (metis split last_appendR)
    with 2(1) [OF True tne] lc True tne cs show ?thesis
      by (simp del: dropWhile_eq_Nil_conv)
  next
    case False
    show ?thesis
    proof (cases cs)
      case Nil
      with False show ?thesis by simp
    next
      case (Cons d ds)
      with 2(2) [OF False] 2(4) False show ?thesis by simp
    qed
  qed
qed

lemma replace_runs_id:
  "\<not> adjacent C s \<Longrightarrow> \<forall>c\<in>set s. C c \<longrightarrow> c = h \<Longrightarrow> replace_runs C [h] s = s"
proof (induction C "[h]" s rule: replace_runs.induct)
  case (1 C)
  show ?case by simp
next
  case (2 C c cs)
  show ?case
  proof (cases "C c")
    case True
    with 2(4) have ch: "c = h" by simp
    from True 2(3) have dw: "dropWhile C cs = cs" by (cases cs) auto
    from 2(3) have "\<not> adjacent C cs" by (cases cs) auto
    with 2(1) [OF True] dw 2(4) have "replace_runs C [h] cs = cs" by simp
    with True ch dw show ?thesis by simp
  next
    case False
    from 2(3) have "\<not> adjacent C cs" by (cases cs) auto
    with 2(2) [OF False] 2(4) False show ?thesis by simp
  qed
qed

lemma strip_trailing_Nil: "strip_trailing s = [] \<longleftrightarrow> list_all hyphen s"
  by (induction s) auto

lemma strip_trailing_units: "set (strip_trailing s) \<subseteq> set s"
  by (induction s) auto

lemma strip_trailing_last:
  "strip_trailing s \<noteq> [] \<Longrightarrow> \<not> hyphen (last (strip_trailing s))"
proof (induction s)
  case Nil
  then show ?case by simp
next
  case (Cons c cs)
  show ?case
  proof (cases "strip_trailing cs = []")
    case True
    with Cons.prems show ?thesis
      by (auto simp: strip_trailing_Nil split: if_splits)
  next
    case False
    with Cons show ?thesis by (auto split: if_splits)
  qed
qed

lemma strip_trailing_head:
  "s \<noteq> [] \<Longrightarrow> \<not> hyphen (hd s) \<Longrightarrow> strip_trailing s \<noteq> [] \<and> hd (strip_trailing s) = hd s"
  by (cases s) auto

lemma strip_trailing_id: "s = [] \<or> \<not> hyphen (last s) \<Longrightarrow> strip_trailing s = s"
proof (induction s)
  case Nil
  show ?case by simp
next
  case (Cons c cs)
  from Cons.prems have nl: "\<not> hyphen (last (c # cs))" by simp
  then have "\<not> list_all hyphen (c # cs)"
    by (metis last_in_set list.distinct(1) list_all_iff)
  moreover from nl have "cs = [] \<or> \<not> hyphen (last cs)" by (cases cs) auto
  ultimately show ?case using Cons.IH by simp
qed

lemma strip_hyphens_ends:
  "strip_hyphens s = [] \<or>
   (\<not> hyphen (hd (strip_hyphens s)) \<and> \<not> hyphen (last (strip_hyphens s)))"
proof (cases "strip_hyphens s = []")
  case True
  then show ?thesis by simp
next
  case False
  let ?t = "dropWhile hyphen s"
  from False have tne: "?t \<noteq> []"
    by (metis strip_hyphens_def strip_trailing.simps(1))
  with dropWhile_head [of hyphen s] have "\<not> hyphen (hd ?t)" by blast
  with tne strip_trailing_head [of ?t] have "\<not> hyphen (hd (strip_hyphens s))"
    by (simp add: strip_hyphens_def)
  moreover from False strip_trailing_last [of ?t] have "\<not> hyphen (last (strip_hyphens s))"
    by (simp add: strip_hyphens_def)
  ultimately show ?thesis by simp
qed

lemma strip_hyphens_units: "set (strip_hyphens s) \<subseteq> set s"
proof -
  have "set (dropWhile hyphen s) \<subseteq> set s" by (rule set_dropWhileD [THEN subsetI])
  with strip_trailing_units [of "dropWhile hyphen s"] show ?thesis
    by (auto simp: strip_hyphens_def)
qed

lemma slugify_units: "list_all slug_unit (slugify rt x)"
proof -
  let ?a = "replace_amp (filter (\<lambda>c. \<not> apostrophe c)
              (normalizeNFKD rt (toLowerCase rt (trim x))))"
  let ?b = "replace_runs (\<lambda>c. \<not> alnum c) [0x2D] ?a"
  have b: "set ?b \<subseteq> {c. slug_unit c}"
    using replace_runs_units [of "\<lambda>c. \<not> alnum c" "[0x2D]" ?a]
    by (auto simp: slug_unit_def hyphen_def)
  have "set (replace_runs hyphen [0x2D] (strip_hyphens ?b))
          \<subseteq> {0x2D} \<union> set (strip_hyphens ?b)"
    using replace_runs_units [of hyphen "[0x2D]" "strip_hyphens ?b"] by auto
  with strip_hyphens_units [of ?b] b
  have "set (replace_runs hyphen [0x2D] (strip_hyphens ?b)) \<subseteq> {c. slug_unit c}"
    by (auto simp: slug_unit_def hyphen_def)
  then show ?thesis
    by (simp add: slugify_def ascii_hyphen list_all_iff subset_iff)
qed

lemma slugify_no_adjacent: "\<not> adjacent hyphen (slugify rt x)"
  by (simp add: slugify_def ascii_hyphen replace_runs_no_adjacent hyphen_def)

lemma slugify_ends:
  "slugify rt x = [] \<or> (\<not> hyphen (hd (slugify rt x)) \<and> \<not> hyphen (last (slugify rt x)))"
proof -
  let ?b = "replace_runs (\<lambda>c. \<not> alnum c) [0x2D]
              (replace_amp (filter (\<lambda>c. \<not> apostrophe c)
                (normalizeNFKD rt (toLowerCase rt (trim x)))))"
  let ?t = "strip_hyphens ?b"
  have eq: "slugify rt x = replace_runs hyphen [0x2D] ?t"
    by (simp add: slugify_def ascii_hyphen)
  show ?thesis
  proof (cases "?t = []")
    case True
    with eq show ?thesis by simp
  next
    case False
    with strip_hyphens_ends [of ?b]
    have e: "\<not> hyphen (hd ?t)" "\<not> hyphen (last ?t)" by auto
    from replace_runs_head [of ?t hyphen "[0x2D]"] replace_runs_last [of ?t hyphen "[0x2D]"]
      False e eq
    show ?thesis by simp
  qed
qed

lemma alnum_not_white: "alnum c \<Longrightarrow> \<not> white_space c"
  by (auto simp: alnum_def white_space_def word_le_nat_alt)

lemma slug_unit_ascii: "slug_unit c \<Longrightarrow> is_ascii c"
  by (auto simp: slug_unit_def alnum_def hyphen_def is_ascii_def word_le_nat_alt word_less_nat_alt)

lemma slug_unit_lower: "slug_unit c \<Longrightarrow> ascii_lower c = c"
  by (auto simp: slug_unit_def alnum_def hyphen_def ascii_lower_def word_le_nat_alt)

lemma slug_unit_plain: "slug_unit c \<Longrightarrow> \<not> apostrophe c \<and> c \<noteq> 0x26"
  by (auto simp: slug_unit_def alnum_def hyphen_def apostrophe_def)

lemma alnum_not_hyphen: "alnum c \<Longrightarrow> \<not> hyphen c"
  by (auto simp: alnum_def hyphen_def)

lemma ascii_platform_conformant: "ascii_conformant ascii_platform"
  by (simp add: ascii_conformant_def ascii_platform_def)

lemmas slug_eval = ascii_def ascii_platform_def slugify_def trim_def white_space_def
  ascii_lower_def apostrophe_def replace_amp_def alnum_def hyphen_def strip_hyphens_def

lemma adjacent_cong: "\<forall>c\<in>set s. C c = D c \<Longrightarrow> adjacent C s = adjacent D s"
  by (induction C s rule: adjacent.induct) auto

lemma trim_id:
  assumes "s = [] \<or> (\<not> white_space (hd s) \<and> \<not> white_space (last s))"
  shows "trim s = s"
proof (cases "s = []")
  case True
  then show ?thesis by (simp add: trim_def)
next
  case False
  with assms have h: "\<not> white_space (hd s)" and l: "\<not> white_space (last s)" by auto
  from False h have d: "dropWhile white_space s = s" by (cases s) auto
  from False l have "\<not> white_space (hd (rev s))" by (simp add: hd_rev)
  with False have "dropWhile white_space (rev s) = rev s" by (cases "rev s") auto
  with d show ?thesis by (simp add: trim_def)
qed

lemma replace_amp_id: "\<forall>c\<in>set s. c \<noteq> 0x26 \<Longrightarrow> replace_amp s = s"
  by (induction s) (auto simp: replace_amp_def)

lemma slugify_fixes_slug:
  assumes rt: "ascii_conformant rt"
    and units: "list_all slug_unit s"
    and adj: "\<not> adjacent hyphen s"
    and ends: "s = [] \<or> (\<not> hyphen (hd s) \<and> \<not> hyphen (last s))"
  shows "slugify rt s = s"
proof -
  from units have u: "\<And>c. c \<in> set s \<Longrightarrow> slug_unit c" by (simp add: list_all_iff)
  have ends_alnum: "s = [] \<or> (alnum (hd s) \<and> alnum (last s))"
  proof (cases "s = []")
    case True
    then show ?thesis by simp
  next
    case False
    then have "slug_unit (hd s)" "slug_unit (last s)" using u by simp_all
    with ends False show ?thesis by (simp add: slug_unit_def)
  qed
  then have 1: "trim s = s" by (intro trim_id) (auto dest: alnum_not_white)
  from u have "list_all is_ascii s" by (simp add: list_all_iff slug_unit_ascii)
  with rt have "toLowerCase rt s = map ascii_lower s" and 3: "normalizeNFKD rt s = s"
    by (simp_all add: ascii_conformant_def)
  moreover from u have "map ascii_lower s = s" by (simp add: map_idI slug_unit_lower)
  ultimately have 2: "toLowerCase rt s = s" by simp
  from u have 4: "filter (\<lambda>c. \<not> apostrophe c) s = s"
    by (simp add: filter_id_conv slug_unit_plain)
  from u have 5: "replace_amp s = s" by (intro replace_amp_id) (simp add: slug_unit_plain)
  have "\<forall>c\<in>set s. (\<not> alnum c) = hyphen c"
    using u alnum_not_hyphen by (auto simp: slug_unit_def)
  then have "adjacent (\<lambda>c. \<not> alnum c) s = adjacent hyphen s" by (rule adjacent_cong)
  with adj have "\<not> adjacent (\<lambda>c. \<not> alnum c) s" by simp
  moreover have "\<forall>c\<in>set s. \<not> alnum c \<longrightarrow> c = 0x2D"
    using u by (auto simp: slug_unit_def hyphen_def)
  ultimately have "replace_runs (\<lambda>c. \<not> alnum c) [0x2D] s = s" by (rule replace_runs_id)
  have 6: "replace_runs (\<lambda>c. \<not> alnum c) [0x2D] s = s" by fact
  from ends have "dropWhile hyphen s = s" by (cases s) auto
  moreover from ends have "strip_trailing s = s" by (intro strip_trailing_id) auto
  ultimately have 7: "strip_hyphens s = s" by (simp add: strip_hyphens_def)
  have "\<forall>c\<in>set s. hyphen c \<longrightarrow> c = 0x2D" by (simp add: hyphen_def)
  with adj have 8: "replace_runs hyphen [0x2D] s = s" by (rule replace_runs_id)
  show ?thesis by (simp add: slugify_def ascii_hyphen 1 2 3 4 5 6 7 8)
qed

lemma obriens_ascii: "list_all is_ascii (ascii ''O'Brien's & Sons'')"
  by (simp add: ascii_def is_ascii_def)

section \<open>Claims about slugify\<close>

text \<open>
  C10. For every input string, the output of \<open>slugify\<close> is the empty string or consists only
  of lowercase ASCII letters, digits and hyphens, with no hyphen at its start, none at its
  end, and no two hyphens in a row. This holds whatever the Unicode tables say.
\<close>

theorem slugify_shape:
  "list_all slug_unit (slugify rt x) \<and>
   \<not> adjacent hyphen (slugify rt x) \<and>
   (slugify rt x = [] \<or>
    (\<not> hyphen (hd (slugify rt x)) \<and> \<not> hyphen (last (slugify rt x))))"
  using slugify_units [of rt x] slugify_no_adjacent [of rt x] slugify_ends [of rt x]
  by simp

theorem slugify_shape_witness:
  "slugify ascii_platform (ascii ''- A  b -'') = ascii ''a-b'' \<and>
   list_all slug_unit (ascii ''a-b'') \<and> \<not> adjacent hyphen (ascii ''a-b'') \<and>
   \<not> hyphen (hd (ascii ''a-b'')) \<and> \<not> hyphen (last (ascii ''a-b''))"
proof -
  have e: "slugify ascii_platform (ascii ''- A  b -'') = ascii ''a-b''"
    by (simp add: slug_eval)
  have ne: "ascii ''a-b'' \<noteq> []" by (simp add: ascii_def)
  from slugify_shape [of ascii_platform "ascii ''- A  b -''"] ne show ?thesis
    unfolding e by simp
qed

text \<open>
  C7. \<open>slugify\<close> is idempotent: for every text \<open>x\<close>, slugifying the slug of \<open>x\<close> gives the
  slug of \<open>x\<close>. The Unicode tables enter through lower-casing and NFKD, which leave a
  string of ASCII lowercase letters, digits and hyphens as it is.
\<close>

theorem slugify_idempotent:
  "ascii_conformant rt \<Longrightarrow> slugify rt (slugify rt x) = slugify rt x"
  by (rule slugify_fixes_slug [OF _ slugify_units slugify_no_adjacent slugify_ends])

theorem slugify_idempotent_witness:
  "ascii_conformant ascii_platform \<and>
   slugify ascii_platform (ascii '' Crab & Co. '') = ascii ''crab-and-co'' \<and>
   slugify ascii_platform (slugify ascii_platform (ascii '' Crab & Co. '')) = ascii ''crab-and-co''"
proof -
  have e: "slugify ascii_platform (ascii '' Crab & Co. '') = ascii ''crab-and-co''"
    by (simp add: slug_eval)
  from slugify_idempotent [OF ascii_platform_conformant, of "ascii '' Crab & Co. ''"] e
    ascii_platform_conformant
  show ?thesis by simp
qed

text \<open>
  C9. \<open>slugify\<close> maps the exact input \<open>O'Brien's & Sons\<close> to \<open>obriens-and-sons\<close>; the proof
  follows the steps in their order: trim, lower-case, NFKD, apostrophes removed, \<open>&\<close>
  replaced by \<open>and\<close> between spaces, runs outside \<open>[a-z0-9]\<close> collapsed to one hyphen, hyphens
  stripped at both ends, repeated hyphens collapsed.
\<close>

theorem slugify_obriens:
  assumes "ascii_conformant rt"
  shows "slugify rt (ascii ''O'Brien's & Sons'') = ascii ''obriens-and-sons''"
proof -
  have t: "trim (ascii ''O'Brien's & Sons'') = ascii ''O'Brien's & Sons''"
    by (simp add: trim_def ascii_def white_space_def)
  from assms obriens_ascii
  have l: "toLowerCase rt (ascii ''O'Brien's & Sons'') = map ascii_lower (ascii ''O'Brien's & Sons'')"
    by (simp add: ascii_conformant_def)
  have l': "map ascii_lower (ascii ''O'Brien's & Sons'') = ascii ''o'brien's & sons''"
    by (simp add: ascii_def ascii_lower_def)
  have "list_all is_ascii (ascii ''o'brien's & sons'')"
    by (simp add: ascii_def is_ascii_def)
  with assms have n: "normalizeNFKD rt (ascii ''o'brien's & sons'') = ascii ''o'brien's & sons''"
    by (simp add: ascii_conformant_def)
  have f: "filter (\<lambda>c. \<not> apostrophe c) (ascii ''o'brien's & sons'') = ascii ''obriens & sons''"
    by (simp add: ascii_def apostrophe_def)
  have a: "replace_amp (ascii ''obriens & sons'') = ascii ''obriens  and  sons''"
    by (simp add: ascii_def replace_amp_def)
  have r: "replace_runs (\<lambda>c. \<not> alnum c) (ascii ''-'') (ascii ''obriens  and  sons'')
             = ascii ''obriens-and-sons''"
    by (simp add: ascii_def alnum_def)
  have s: "strip_hyphens (ascii ''obriens-and-sons'') = ascii ''obriens-and-sons''"
    by (simp add: ascii_def strip_hyphens_def hyphen_def)
  have c: "replace_runs hyphen (ascii ''-'') (ascii ''obriens-and-sons'') = ascii ''obriens-and-sons''"
    by (simp add: ascii_def hyphen_def)
  show ?thesis by (simp only: slugify_def t l l' n f a r s c)
qed

theorem slugify_obriens_witness:
  "ascii_conformant ascii_platform \<and>
   slugify ascii_platform (ascii ''O'Brien's & Sons'') = ascii ''obriens-and-sons''"
  using slugify_obriens [OF ascii_platform_conformant] ascii_platform_conformant by simp

section \<open>Properties of main\<close>

lemma main_error_world: "main rt ROOT now a w = (Inl e, w') \<Longrightarrow> w' = w"
  by (auto simp: main_def split: sum.splits prod.splits)

lemma main_success:
  assumes "main rt ROOT now a w = (Inr en, w')"
  shows "\<exists>rs areaKeys cuisineNames w1.
           load rt ROOT w = Inr (rs, areaKeys, cuisineNames) \<and>
           collect rt now a rs areaKeys cuisineNames = Inr en \<and>
           provision ROOT w (slug en) = Inr w1 \<and>
           w' = writeJson rt w1 (FILE_RESTAURANTS ROOT) (JArr (rs @ [entry_json en]))"
  using assms by (auto simp: main_def split: sum.splits prod.splits)

lemma main_steps:
  "load rt ROOT w = Inr (rs, areaKeys, cuisineNames) \<Longrightarrow>
   collect rt now a rs areaKeys cuisineNames = Inr en \<Longrightarrow>
   provision ROOT w (slug en) = Inr w1 \<Longrightarrow>
   main rt ROOT now a w =
     (Inr en, writeJson rt w1 (FILE_RESTAURANTS ROOT) (JArr (rs @ [entry_json en])))"
  by (simp add: main_def)

lemma collect_success:
  assumes "collect rt now a rs areaKeys cuisineNames = Inr en"
  shows "name en = trim (q_name a)"
    and "trim (q_name a) \<noteq> []"
    and "candidate_slug rt (q_slug a) (trim (q_name a)) \<noteq> []"
    and "slug en = unique_slug now rs (candidate_slug rt (q_slug a) (trim (q_name a)))"
    and "areaKey en = trim (q_areaKey a)"
    and "trim (q_areaKey a) \<noteq> []"
    and "price en = (if trim (q_price a) \<noteq> [] then trim (q_price a) else ascii ''$$'')"
    and "cuisines en = parseList (q_cuisines a)"
    and "parseList (q_cuisines a) \<noteq> []"
  using assms by (auto simp: collect_def Let_def split: if_splits)

lemma collect_no_cuisines:
  "parseList (q_cuisines a) = [] \<Longrightarrow> \<exists>e. collect rt now a rs areaKeys cuisineNames = Inl e"
  by (simp add: collect_def Let_def)

lemma load_success:
  assumes "load rt ROOT w = Inr (rs, areaKeys, cuisineNames)"
  shows "readJson rt w (FILE_RESTAURANTS ROOT) = Inr (JArr rs)"
    and "\<exists>areas. readJson rt w (FILE_AREAS ROOT) = Inr areas \<and> areaKeys = extractAreaKeys areas"
    and "\<exists>c. readJson rt w (FILE_CUISINES ROOT) = Inr c \<and> cuisineNames = extractCuisineNames c"
  using assms by (auto simp: load_def split: sum.splits json.splits)

lemma main_no_cuisines:
  assumes c: "parseList (q_cuisines a) = []"
  shows "\<exists>e. main rt ROOT now a w = (Inl e, w)"
proof (cases "load rt ROOT w")
  case (Inl e)
  then show ?thesis by (simp add: main_def)
next
  case (Inr t)
  obtain rs ak cn where t: "t = (rs, ak, cn)" by (cases t)
  from collect_no_cuisines [OF c] obtain e where "collect rt now a rs ak cn = Inl e" by blast
  with Inr t show ?thesis by (simp add: main_def)
qed

lemma run_error: "main rt ROOT now a w = (Inl e, w') \<Longrightarrow> run rt ROOT now a w = (1, w')"
  by (simp add: run_def)

lemma run_success: "main rt ROOT now a w = (Inr en, w') \<Longrightarrow> run rt ROOT now a w = (0, w')"
  by (simp add: run_def)

lemma unique_slug_nonempty: "sl \<noteq> [] \<Longrightarrow> unique_slug now rs sl \<noteq> []"
  by (simp add: unique_slug_def)

lemma provision_writes:
  assumes "provision ROOT w sl = Inr w1"
  shows "writes w1 = writes w \<or>
         writes w1 = writes w @
           [ROOT @ map ascii [''public'', ''images'', ''restaurants''] @ [sl] @ [ascii ''1.jpg'']]"
  using assms
  by (auto simp: provision_def Let_def ensureDir_def copyPlaceholderIfExists_def
      split: if_splits option.splits)

lemma photo_not_store:
  "ROOT @ map ascii [''public'', ''images'', ''restaurants''] @ [sl] @ [ascii ''1.jpg'']
     \<noteq> FILE_RESTAURANTS ROOT"
  by (simp add: FILE_RESTAURANTS_def)

lemma main_store_write:
  assumes "main rt ROOT now a w = (Inr en, w')"
  shows "filter (\<lambda>p. p = FILE_RESTAURANTS ROOT) (drop (length (writes w)) (writes w'))
           = [FILE_RESTAURANTS ROOT]"
proof -
  from main_success [OF assms] obtain rs w1 where
    p: "provision ROOT w (slug en) = Inr w1" and
    w': "w' = writeJson rt w1 (FILE_RESTAURANTS ROOT) (JArr (rs @ [entry_json en]))"
    by blast
  from w' have ws: "writes w' = writes w1 @ [FILE_RESTAURANTS ROOT]"
    by (simp add: writeJson_def Let_def)
  from provision_writes [OF p] show ?thesis
  proof
    assume "writes w1 = writes w"
    with ws show ?thesis by simp
  next
    assume "writes w1 = writes w @
           [ROOT @ map ascii [''public'', ''images'', ''restaurants''] @ [slug en] @ [ascii ''1.jpg'']]"
    with ws photo_not_store [of ROOT "slug en"] show ?thesis by simp
  qed
qed

section \<open>Properties of the JSON text\<close>

text \<open>A quoted string is read back.\<close>

lemma hex_value_unit: "d < 16 \<Longrightarrow> hex_value (hex_unit d) = Some d"
proof -
  assume "d < 16"
  then have "d = 0 \<or> d = 1 \<or> d = 2 \<or> d = 3 \<or> d = 4 \<or> d = 5 \<or> d = 6 \<or> d = 7 \<or> d = 8 \<or>
             d = 9 \<or> d = 10 \<or> d = 11 \<or> d = 12 \<or> d = 13 \<or> d = 14 \<or> d = 15"
    by arith
  then show ?thesis by (elim disjE) (simp_all add: hex_value_def hex_unit_def)
qed

lemma hex4_escape:
  "hex4 (hex_unit (unat c div 4096)) (hex_unit (unat c div 256 mod 16))
        (hex_unit (unat c div 16 mod 16)) (hex_unit (unat c mod 16)) = Some (c :: 16 word)"
proof -
  have lt: "unat c < 65536" using unsigned_less [of c, where 'a = nat] by simp
  then have a: "unat c div 4096 < 16" by simp
  define x where "x = unat c"
  have u: "x div 4096 = x div 256 div 16" and z: "x div 256 = x div 16 div 16"
    by (simp_all add: div_mult2_eq [symmetric])
  have "x div 256 div 16 * 16 + x div 256 mod 16 = x div 256"
       "x div 16 div 16 * 16 + x div 16 mod 16 = x div 16"
       "x div 16 * 16 + x mod 16 = x"
    by (rule div_mult_mod_eq)+
  then have "((x div 4096 * 16 + x div 256 mod 16) * 16 + x div 16 mod 16) * 16
          + x mod 16 = x"
    by (simp add: u z)
  then have "((unat c div 4096 * 16 + unat c div 256 mod 16) * 16 + unat c div 16 mod 16) * 16
          + unat c mod 16 = unat c"
    by (simp add: x_def)
  then show ?thesis
    by (simp add: hex4_def hex_value_unit a)
qed

lemma parse_units_escape:
  "parse_units (UnicodeEscape c @ t) = after c (parse_units t)"
  by (simp add: UnicodeEscape_def hex4_escape)

lemma parse_units_quote_unit:
  "parse_units (quote_unit c @ t) = after c (parse_units t)"
proof -
  consider "c = 0x08" | "c = 0x09" | "c = 0x0A" | "c = 0x0C" | "c = 0x0D" | "c = 0x22"
    | "c = 0x5C"
    | "c \<notin> {0x08, 0x09, 0x0A, 0x0C, 0x0D, 0x22, 0x5C}"
        "c < 0x20 \<or> lead_surrogate c \<or> trail_surrogate c"
    | "c \<notin> {0x08, 0x09, 0x0A, 0x0C, 0x0D, 0x22, 0x5C}"
        "\<not> (c < 0x20 \<or> lead_surrogate c \<or> trail_surrogate c)"
    by blast
  then show ?thesis
  proof cases
    case 8
    then show ?thesis by (simp add: quote_unit_def parse_units_escape)
  next
    case 9
    then show ?thesis by (simp add: quote_unit_def)
  qed (simp_all add: quote_unit_def unescape_def)
qed

lemma surrogate_raw:
  "lead_surrogate c \<or> trail_surrogate c \<Longrightarrow> c \<noteq> 0x22 \<and> c \<noteq> 0x5C \<and> \<not> c < 0x20"
  by (auto simp: lead_surrogate_def trail_surrogate_def word_le_nat_alt word_less_nat_alt)

lemma parse_units_quote_units:
  "parse_units (quote_units s @ 0x22 # rest) = Some (s, rest)"
proof (induction s rule: quote_units.induct)
  case 1
  show ?case by simp
next
  case (2 c)
  show ?case using parse_units_quote_unit [of c "0x22 # rest"] by (simp add: after_def)
next
  case (3 c d cs)
  show ?case
  proof (cases "lead_surrogate c \<and> trail_surrogate d")
    case True
    with surrogate_raw [of c] surrogate_raw [of d] 3(1) show ?thesis
      by (simp add: after_def)
  next
    case False
    then have "quote_units (c # d # cs) = quote_unit c @ quote_units (d # cs)" by auto
    with 3(2) [OF False] show ?thesis
      by (simp add: parse_units_quote_unit after_def del: parse_units.simps quote_units.simps)
  qed
qed

text \<open>A serialized value is read back.\<close>

lemma skip_ws_append: "list_all json_ws w \<Longrightarrow> dropWhile json_ws (w @ s) = dropWhile json_ws s"
  by (simp add: list_all_iff dropWhile_append2)

lemma skip_ws_start: "\<not> json_ws c \<Longrightarrow> dropWhile json_ws (c # s) = c # s"
  by simp

lemma parse_value_ws: "list_all json_ws w \<Longrightarrow> parse_value N n (w @ s) = parse_value N n s"
  by (simp add: parse_value.simps skip_ws_append)

lemma ws_units: "json_ws 0x0A" "json_ws 0x20" "list_all json_ws (ascii ''  '')"
  "\<not> json_ws 0x22" "\<not> json_ws 0x2C" "\<not> json_ws 0x3A" "\<not> json_ws 0x5B" "\<not> json_ws 0x5D"
  "\<not> json_ws 0x7B" "\<not> json_ws 0x7D"
  by (simp_all add: json_ws_def ascii_def)

lemma num_unit_sep: "\<not> num_unit 0x2C" "\<not> num_unit 0x0A"
  by (simp_all add: num_unit_def digit_def)

lemma digit_plain:
  "digit c \<or> c = 0x2D \<Longrightarrow>
   \<not> json_ws c \<and> c \<noteq> 0x22 \<and> c \<noteq> 0x5B \<and> c \<noteq> 0x7B \<and> c \<noteq> 0x5D \<and> c \<noteq> 0x7D \<and>
   c \<noteq> 0x6E \<and> c \<noteq> 0x74 \<and> c \<noteq> 0x66"
  by (auto simp: digit_def json_ws_def word_le_nat_alt)

lemma serialized_start:
  "reads_back T N v \<Longrightarrow>
   \<exists>c t. SerializeJSONProperty T indent v = c # t \<and> value_start c"
proof (cases v)
  case (JNum x)
  assume "reads_back T N v"
  with JNum obtain r where x: "x = Finite r" and ok: "number_reads_back T N r"
    by (cases x) auto
  from ok obtain c t where "T r = c # t" "c = 0x2D \<or> digit c"
    by (cases "T r") (auto simp: number_reads_back_def)
  with digit_plain [of c] JNum x show ?thesis by (auto simp: value_start_def)
qed (auto simp: ascii_def value_start_def json_ws_def QuoteJSONString_def)

lemma parse_number:
  assumes "number_reads_back T N r" and "rest = [] \<or> \<not> num_unit (hd rest)"
  shows "parse_value N n (T r @ rest) = Some (JNum (Finite r), rest)"
proof -
  from assms(1) obtain c t where t: "T r = c # t" and c: "c = 0x2D \<or> digit c"
    and all: "list_all num_unit (T r)" and N: "N (T r) = Some (Finite r)"
    by (cases "T r") (auto simp: number_reads_back_def)
  from assms(2) have rest: "takeWhile num_unit rest = []" "dropWhile num_unit rest = rest"
    by (cases rest; simp)+
  from all have tw: "takeWhile num_unit (T r @ rest) = T r"
    by (simp add: list_all_iff takeWhile_append2 rest)
  from all have dw: "dropWhile num_unit (T r @ rest) = rest"
    by (simp add: list_all_iff dropWhile_append2 rest)
  have lit: "take 4 ((c # t) @ rest) \<noteq> ascii ''null''" "take 4 ((c # t) @ rest) \<noteq> ascii ''true''"
    "take 5 ((c # t) @ rest) \<noteq> ascii ''false''"
    using digit_plain [OF disjI2, of c] digit_plain [OF disjI1, of c] c
    by (auto simp: ascii_def)
  from digit_plain [of c] c have plain: "\<not> json_ws c" "c \<noteq> 0x22" "c \<noteq> 0x5B" "c \<noteq> 0x7B"
    by auto
  have e: "c # t @ rest = T r @ rest" by (simp add: t)
  have "parse_value N n (c # t @ rest) =
          (case N (takeWhile num_unit (c # t @ rest)) of
             None \<Rightarrow> None
           | Some x \<Rightarrow> Some (JNum x, dropWhile num_unit (c # t @ rest)))"
    using plain lit c
    by (subst parse_value.simps) (simp del: take_Cons_numeral takeWhile.simps dropWhile.simps
          add: skip_ws_start)
  from this [unfolded e] show ?thesis by (simp only: tw dw N option.case)
qed

lemma reads_atD:
  "reads_at T N indent v \<Longrightarrow> length (SerializeJSONProperty T indent v @ rest) \<le> n \<Longrightarrow>
   rest = [] \<or> \<not> num_unit (hd rest) \<Longrightarrow>
   parse_value N n (SerializeJSONProperty T indent v @ rest) = Some (v, rest)"
  unfolding reads_at_def by blast

lemma parse_elements_serialized:
  assumes ws: "list_all json_ws ind" "list_all json_ws ind'"
  shows "vs \<noteq> [] \<Longrightarrow> \<forall>v\<in>set vs. reads_back T N v \<and> reads_at T N ind' v \<Longrightarrow>
         list_all json_ws w \<Longrightarrow>
         length (w @ join_with ([0x2C, 0x0A] @ ind') (map (SerializeJSONProperty T ind') vs)
                   @ [0x0A] @ ind @ [0x5D] @ rest) < n \<Longrightarrow>
         parse_elements N n
           (w @ join_with ([0x2C, 0x0A] @ ind') (map (SerializeJSONProperty T ind') vs)
              @ [0x0A] @ ind @ [0x5D] @ rest) = Some (vs, rest)"
proof (induction vs arbitrary: n w)
  case Nil
  then show ?case by simp
next
  case (Cons v vs)
  let ?S = "SerializeJSONProperty T ind'"
  let ?sep = "[0x2C, 0x0A] @ ind'"
  let ?tail = "[0x0A] @ ind @ [0x5D] @ rest"
  from Cons.prems(4) obtain m where n: "n = Suc m" by (cases n) auto
  from Cons.prems(2) have rb: "reads_back T N v" and ra: "reads_at T N ind' v" by auto
  from serialized_start [OF rb, of "ind'"] have ne: "?S v \<noteq> []" by auto
  show ?case
  proof (cases "vs = []")
    case True
    have shape: "w @ join_with ?sep (map ?S (v # vs)) @ ?tail = w @ ?S v @ ?tail"
      using True by simp
    from Cons.prems(4) have len: "length (?S v @ ?tail) \<le> m" by (simp add: n True)
    have "parse_value N m (w @ ?S v @ ?tail) = Some (v, ?tail)"
      using reads_atD [OF ra len] Cons.prems(3) by (simp add: parse_value_ws num_unit_sep)
    moreover have "dropWhile json_ws ?tail = 0x5D # rest"
      using ws(1) skip_ws_append [of "0x0A # ind" "0x5D # rest"] by (simp add: ws_units)
    ultimately show ?thesis unfolding shape n
      using True by (simp del: append.simps dropWhile.simps)
  next
    case False
    let ?more = "join_with ?sep (map ?S vs) @ ?tail"
    have shape: "w @ join_with ?sep (map ?S (v # vs)) @ ?tail
                  = w @ ?S v @ 0x2C # (0x0A # ind') @ ?more"
      using False by (cases vs) simp_all
    from Cons.prems(4) have len: "length (?S v @ 0x2C # (0x0A # ind') @ ?more) \<le> m"
      unfolding shape n by simp
    have pv: "parse_value N m (w @ ?S v @ 0x2C # (0x0A # ind') @ ?more)
            = Some (v, 0x2C # (0x0A # ind') @ ?more)"
      using reads_atD [OF ra len] Cons.prems(3) by (simp add: parse_value_ws num_unit_sep)
    have "length ((0x0A # ind') @ ?more) < m" using len ne by (cases "?S v") simp_all
    moreover have "list_all json_ws (0x0A # ind')" using ws(2) by (simp add: ws_units)
    moreover from Cons.prems(2) have "\<forall>v\<in>set vs. reads_back T N v \<and> reads_at T N ind' v"
      by simp
    ultimately have "parse_elements N m ((0x0A # ind') @ ?more) = Some (vs, rest)"
      using Cons.IH [OF False] by blast
    with pv show ?thesis unfolding shape n
      by (simp add: after_def ws_units del: append.simps dropWhile_append)
  qed
qed

lemma parse_members_step:
  assumes "list_all json_ws w" and "parse_value N m (body @ rest1) = Some (v, rest1)"
  shows "parse_members N (Suc m) (w @ QuoteJSONString k @ [0x3A, 0x20] @ body @ rest1) =
           (case dropWhile json_ws rest1 of
              [] \<Rightarrow> None
            | e # r4 \<Rightarrow>
                if e = 0x2C then after (k, v) (parse_members N m r4)
                else if e = 0x7D then Some ([(k, v)], r4)
                else None)"
proof -
  have a: "dropWhile json_ws (w @ QuoteJSONString k @ [0x3A, 0x20] @ body @ rest1)
             = 0x22 # quote_units k @ 0x22 # 0x3A # 0x20 # body @ rest1"
    using assms(1) by (simp add: skip_ws_append QuoteJSONString_def ws_units)
  have b: "parse_value N m (0x20 # body @ rest1) = Some (v, rest1)"
    using parse_value_ws [of "[0x20]" N m "body @ rest1"] assms(2) by (simp add: ws_units)
  show ?thesis
    by (simp only: parse_members.simps a list.case if_True parse_units_quote_units
          option.case prod.case) (simp add: ws_units b)
qed

lemma parse_members_serialized:
  assumes ws: "list_all json_ws ind" "list_all json_ws ind'"
  shows "kvs \<noteq> [] \<Longrightarrow>
         \<forall>kv\<in>set kvs. reads_back T N (snd kv) \<and> reads_at T N ind' (snd kv) \<Longrightarrow>
         list_all json_ws w \<Longrightarrow>
         length (w @ join_with ([0x2C, 0x0A] @ ind')
                       (map (\<lambda>kv. QuoteJSONString (fst kv) @ [0x3A, 0x20] @
                                     SerializeJSONProperty T ind' (snd kv)) kvs)
                   @ [0x0A] @ ind @ [0x7D] @ rest) < n \<Longrightarrow>
         parse_members N n
           (w @ join_with ([0x2C, 0x0A] @ ind')
                  (map (\<lambda>kv. QuoteJSONString (fst kv) @ [0x3A, 0x20] @
                                SerializeJSONProperty T ind' (snd kv)) kvs)
              @ [0x0A] @ ind @ [0x7D] @ rest) = Some (kvs, rest)"
proof (induction kvs arbitrary: n w)
  case Nil
  then show ?case by simp
next
  case (Cons kv kvs)
  obtain k v where kv: "kv = (k, v)" by (cases kv)
  let ?S = "SerializeJSONProperty T ind'"
  let ?M = "\<lambda>kv. QuoteJSONString (fst kv) @ [0x3A, 0x20] @ ?S (snd kv)"
  let ?sep = "[0x2C, 0x0A] @ ind'"
  let ?tail = "[0x0A] @ ind @ [0x7D] @ rest"
  from Cons.prems(4) obtain m where n: "n = Suc m" by (cases n) auto
  from Cons.prems(2) have rb: "reads_back T N v" and ra: "reads_at T N ind' v"
    by (auto simp: kv)
  show ?case
  proof (cases "kvs = []")
    case True
    have shape: "w @ join_with ?sep (map ?M (kv # kvs)) @ ?tail
                   = w @ QuoteJSONString k @ [0x3A, 0x20] @ ?S v @ ?tail"
      using True by (simp add: kv)
    from Cons.prems(4) have len: "length (?S v @ ?tail) \<le> m"
      unfolding shape n by simp
    have pv: "parse_value N m (?S v @ ?tail) = Some (v, ?tail)"
      using reads_atD [OF ra len] by (simp add: num_unit_sep)
    have "dropWhile json_ws ?tail = 0x7D # rest"
      using ws(1) skip_ws_append [of "0x0A # ind" "0x7D # rest"] by (simp add: ws_units)
    with parse_members_step [OF Cons.prems(3) pv, of k] show ?thesis
      unfolding shape n using True by (simp add: kv del: append.simps dropWhile.simps)
  next
    case False
    let ?more = "join_with ?sep (map ?M kvs) @ ?tail"
    have shape: "w @ join_with ?sep (map ?M (kv # kvs)) @ ?tail
                  = w @ QuoteJSONString k @ [0x3A, 0x20] @ ?S v @ 0x2C # (0x0A # ind') @ ?more"
      using False by (cases kvs) (simp_all add: kv)
    from Cons.prems(4) have len: "length (?S v @ 0x2C # (0x0A # ind') @ ?more) \<le> m"
      unfolding shape n by simp
    have pv: "parse_value N m (?S v @ 0x2C # (0x0A # ind') @ ?more)
            = Some (v, 0x2C # (0x0A # ind') @ ?more)"
      using reads_atD [OF ra len] by (simp add: num_unit_sep)
    have "length ((0x0A # ind') @ ?more) < m" using len by simp
    moreover have "list_all json_ws (0x0A # ind')" using ws(2) by (simp add: ws_units)
    moreover from Cons.prems(2)
    have "\<forall>kv\<in>set kvs. reads_back T N (snd kv) \<and> reads_at T N ind' (snd kv)"
      by simp
    ultimately have "parse_members N m ((0x0A # ind') @ ?more) = Some (kvs, rest)"
      using Cons.IH [OF False] by blast
    with parse_members_step [OF Cons.prems(3) pv, of k] show ?thesis unfolding shape n
      by (simp add: after_def ws_units kv del: append.simps dropWhile_append)
  qed
qed

lemma create_fresh:
  "fst p \<notin> fst ` set obj \<Longrightarrow> array_index (fst p) = None \<Longrightarrow> CreateDataProperty obj p = obj @ [p]"
  by (simp add: CreateDataProperty_def)

lemma foldl_create:
  "distinct (map fst (obj @ ms)) \<Longrightarrow> \<forall>p\<in>set ms. array_index (fst p) = None \<Longrightarrow>
   foldl CreateDataProperty obj ms = obj @ ms"
proof (induction ms arbitrary: obj)
  case Nil
  show ?case by simp
next
  case (Cons p ms)
  from Cons.prems have "fst p \<notin> fst ` set obj" "array_index (fst p) = None" by auto
  then have "CreateDataProperty obj p = obj @ [p]" by (rule create_fresh)
  moreover from Cons.prems have "distinct (map fst ((obj @ [p]) @ ms))" by simp
  ultimately show ?case using Cons.IH [of "obj @ [p]"] Cons.prems(2) by simp
qed

lemma build_object_id:
  "distinct (map fst ms) \<Longrightarrow> \<forall>p\<in>set ms. array_index (fst p) = None \<Longrightarrow> build_object ms = ms"
  using foldl_create [of "[]" ms] by (simp add: build_object_def)

lemma join_start:
  assumes "ps \<noteq> []" and "\<exists>c t. hd ps = c # t \<and> P c"
  shows "\<exists>c t. join_with sep ps @ following = c # t \<and> P c"
proof (cases ps)
  case Nil
  with assms(1) show ?thesis by simp
next
  case (Cons p qs)
  with assms(2) show ?thesis by (cases qs) auto
qed

lemma parse_value_array:
  assumes "list_all json_ws w" and "body = c # t" and "value_start c"
  shows "parse_value N n (0x5B # w @ body)
           = map_option (\<lambda>(vs, rest). (JArr vs, rest)) (parse_elements N n (w @ body))"
proof -
  from assms have "dropWhile json_ws (w @ body) = c # t" "c \<noteq> 0x5D"
    by (simp_all add: skip_ws_append value_start_def)
  then show ?thesis by (subst parse_value.simps) (simp add: ws_units)
qed

lemma parse_value_object:
  assumes "list_all json_ws w" and "body = c # t" and "value_start c"
  shows "parse_value N n (0x7B # w @ body)
           = map_option (\<lambda>(ms, rest). (JObj (build_object ms), rest))
               (parse_members N n (w @ body))"
proof -
  from assms have "dropWhile json_ws (w @ body) = c # t" "c \<noteq> 0x7D"
    by (simp_all add: skip_ws_append value_start_def)
  then show ?thesis by (subst parse_value.simps) (simp add: ws_units)
qed

lemma serialized_reads_at:
  "reads_back T N v \<longrightarrow> list_all json_ws indent \<longrightarrow> reads_at T N indent v"
proof (induction T indent v rule: SerializeJSONProperty.induct)
  case (1 T indent)
  show ?case
    by (simp add: reads_at_def) (subst parse_value.simps, simp add: ascii_def json_ws_def)+
next
  case (2 T indent b)
  show ?case
    by (cases b; simp add: reads_at_def)
       ((subst parse_value.simps, simp add: ascii_def json_ws_def)+)
next
  case (3 T indent x)
  show ?case
  proof (intro impI)
    assume "reads_back T N (JNum x)"
    then obtain r where x: "x = Finite r" and ok: "number_reads_back T N r"
      by (cases x) auto
    show "reads_at T N indent (JNum x)"
      unfolding reads_at_def using parse_number [OF ok] by (simp add: x)
  qed
next
  case (4 T indent s)
  have "parse_value N n (0x22 # quote_units s @ 0x22 # rest) = Some (JStr s, rest)" for n rest
    by (subst parse_value.simps) (simp add: ws_units parse_units_quote_units)
  then show ?case by (simp add: reads_at_def QuoteJSONString_def)
next
  case (5 T indent vs)
  show ?case
  proof (intro impI)
    assume rb: "reads_back T N (JArr vs)" and ws: "list_all json_ws indent"
    let ?ind = "indent @ ascii ''  ''"
    from ws have ws': "list_all json_ws ?ind" by (simp add: ws_units)
    show "reads_at T N indent (JArr vs)"
    proof (cases "vs = []")
      case True
      have "parse_value N n (0x5B # 0x5D # rest) = Some (JArr [], rest)" for n rest
        by (subst parse_value.simps) (simp add: ws_units)
      with True show ?thesis by (simp add: reads_at_def ascii_def)
    next
      case False
      let ?body = "join_with ([0x2C, 0x0A] @ ?ind) (map (SerializeJSONProperty T ?ind) vs)"
      from rb 5 [OF False] ws'
      have each: "\<forall>v\<in>set vs. reads_back T N v \<and> reads_at T N ?ind v"
        by (auto simp: list_all_iff)
      from False each serialized_start [of T N "hd vs" ?ind]
      have "\<exists>c t. hd (map (SerializeJSONProperty T ?ind) vs) = c # t \<and> value_start c"
        by (cases vs) auto
      from join_start [OF _ this] False
      have start: "\<exists>c t. ?body @ following = c # t \<and> value_start c" for following
        by simp
      show ?thesis
        unfolding reads_at_def
      proof (intro allI impI)
        fix n rest
        assume len: "length (SerializeJSONProperty T indent (JArr vs) @ rest) \<le> n"
        let ?tail = "[0x0A] @ indent @ [0x5D] @ rest"
        have shape: "SerializeJSONProperty T indent (JArr vs) @ rest
                = 0x5B # (0x0A # ?ind) @ ?body @ ?tail"
          using False by simp
        from start [of ?tail] obtain c t where b: "?body @ ?tail = c # t" "value_start c"
          by blast
        have w: "list_all json_ws (0x0A # ?ind)" using ws' by (simp add: ws_units)
        from len have "length ((0x0A # ?ind) @ ?body @ ?tail) < n" unfolding shape by simp
        from parse_elements_serialized [OF ws ws' False each w this]
        have "parse_elements N n ((0x0A # ?ind) @ ?body @ ?tail) = Some (vs, rest)" .
        with parse_value_array [OF w b, of N n]
        show "parse_value N n (SerializeJSONProperty T indent (JArr vs) @ rest)
                = Some (JArr vs, rest)"
          unfolding shape by simp
      qed
    qed
  qed
next
  case (6 T indent kvs)
  show ?case
  proof (intro impI)
    assume rb: "reads_back T N (JObj kvs)" and ws: "list_all json_ws indent"
    let ?ind = "indent @ ascii ''  ''"
    from ws have ws': "list_all json_ws ?ind" by (simp add: ws_units)
    show "reads_at T N indent (JObj kvs)"
    proof (cases "kvs = []")
      case True
      have "parse_value N n (0x7B # 0x7D # rest) = Some (JObj [], rest)" for n rest
        by (subst parse_value.simps) (simp add: ws_units)
      with True show ?thesis by (simp add: reads_at_def ascii_def)
    next
      case False
      let ?M = "\<lambda>kv. QuoteJSONString (fst kv) @ [0x3A, 0x20] @
                       SerializeJSONProperty T ?ind (snd kv)"
      let ?body = "join_with ([0x2C, 0x0A] @ ?ind) (map ?M kvs)"
      from rb 6 [OF False] ws'
      have each: "\<forall>kv\<in>set kvs. reads_back T N (snd kv) \<and> reads_at T N ?ind (snd kv)"
        by (auto simp: list_all_iff)
      from rb have built: "build_object kvs = kvs"
        by (intro build_object_id) (auto simp: list_all_iff)
      have "\<exists>c t. hd (map ?M kvs) = c # t \<and> value_start c"
        using False by (cases kvs) (auto simp: QuoteJSONString_def value_start_def ws_units)
      from join_start [OF _ this] False
      have start: "\<exists>c t. ?body @ following = c # t \<and> value_start c" for following
        by simp
      show ?thesis
        unfolding reads_at_def
      proof (intro allI impI)
        fix n rest
        assume len: "length (SerializeJSONProperty T indent (JObj kvs) @ rest) \<le> n"
        let ?tail = "[0x0A] @ indent @ [0x7D] @ rest"
        have shape: "SerializeJSONProperty T indent (JObj kvs) @ rest
                = 0x7B # (0x0A # ?ind) @ ?body @ ?tail"
          using False by simp
        from start [of ?tail] obtain c t where b: "?body @ ?tail = c # t" "value_start c"
          by blast
        have w: "list_all json_ws (0x0A # ?ind)" using ws' by (simp add: ws_units)
        from len have "length ((0x0A # ?ind) @ ?body @ ?tail) < n" unfolding shape by simp
        from parse_members_serialized [OF ws ws' False each w this]
        have "parse_members N n ((0x0A # ?ind) @ ?body @ ?tail) = Some (kvs, rest)" .
        with parse_value_object [OF w b, of N n] built
        show "parse_value N n (SerializeJSONProperty T indent (JObj kvs) @ rest)
                = Some (JObj kvs, rest)"
          unfolding shape by simp
      qed
    qed
  qed
qed

lemma parse_serialized:
  assumes "reads_back T N v" and "list_all json_ws trailing"
  shows "ParseJSON N (SerializeJSONProperty T [] v @ trailing) = Some v"
proof -
  from serialized_reads_at [of T N v "[]"] assms(1) have "reads_at T N [] v" by simp
  moreover from assms(2) have "trailing = [] \<or> \<not> num_unit (hd trailing)"
    by (cases trailing) (auto simp: json_ws_def num_unit_def digit_def)
  ultimately have "parse_value N (length (SerializeJSONProperty T [] v @ trailing))
                     (SerializeJSONProperty T [] v @ trailing) = Some (v, trailing)"
    by (intro reads_atD) simp_all
  moreover from assms(2) have "dropWhile json_ws trailing = []"
    by (simp add: list_all_iff)
  ultimately show ?thesis by (simp add: ParseJSON_def)
qed

section \<open>Evaluation on the small site\<close>

lemmas path_eval =
  site_def FILE_RESTAURANTS_def FILE_AREAS_def FILE_CUISINES_def PLACEHOLDER_def ascii_def

lemma parse_elements_numeral:
  "parse_elements N (numeral k) s =
     (case parse_value N (pred_numeral k) s of
        None \<Rightarrow> None
      | Some (v, r) \<Rightarrow>
          (case dropWhile json_ws r of
             [] \<Rightarrow> None
           | c # r' \<Rightarrow>
               if c = 0x2C then after v (parse_elements N (pred_numeral k) r')
               else if c = 0x5D then Some ([v], r')
               else None))"
  by (simp add: numeral_eq_Suc)

lemma parse_members_numeral:
  "parse_members N (numeral j) s =
     (case dropWhile json_ws s of
        [] \<Rightarrow> None
      | c # r \<Rightarrow>
          if c = 0x22 then
            (case parse_units r of
               None \<Rightarrow> None
             | Some (k, r1) \<Rightarrow>
                 (case dropWhile json_ws r1 of
                    [] \<Rightarrow> None
                  | d # r2 \<Rightarrow>
                      if d = 0x3A then
                        (case parse_value N (pred_numeral j) r2 of
                           None \<Rightarrow> None
                         | Some (v, r3) \<Rightarrow>
                             (case dropWhile json_ws r3 of
                                [] \<Rightarrow> None
                              | e # r4 \<Rightarrow>
                                  if e = 0x2C
                                  then after (k, v) (parse_members N (pred_numeral j) r4)
                                  else if e = 0x7D then Some ([(k, v)], r4)
                                  else None))
                      else None))
          else None)"
  by (simp add: numeral_eq_Suc)

lemmas parse_eval =
  ParseJSON_def parse_value.simps json_ws_def parse_elements_numeral parse_members_numeral
  after_def digit_def build_object_def CreateDataProperty_def array_index_def

lemma ascii_platform_json: "ecma_json ascii_platform"
  by (simp add: ecma_json_def ascii_platform_def)

lemma parse_known:
  "JSON_parse ascii_platform (ascii ''[]'') = Some (JArr [])"
  "JSON_parse ascii_platform (ascii ''{}'') = Some (JObj [])"
  "JSON_parse ascii_platform (ascii ''[null]'') = Some (JArr [JNull])"
  by (simp_all add: ascii_platform_def ascii_def parse_eval)

lemma parse_crabby:
  \<open>JSON_parse ascii_platform
       (ascii ''[{"slug":"crabby-bills"},{"slug":"crabby-bills-12345"}]'')
     = Some (JArr crabby_store)\<close>
  by (simp add: ascii_platform_def ascii_def parse_eval crabby_store_def)

lemma empty_site_files:
  "files empty_site (FILE_RESTAURANTS site) = Some (ascii ''[]'')"
  "files empty_site (FILE_AREAS site) = Some (ascii ''[]'')"
  "files empty_site (FILE_CUISINES site) = Some (ascii ''[]'')"
  by (simp_all add: empty_site_def path_eval)

lemma crabby_site_files:
  \<open>files crabby_site (FILE_RESTAURANTS site)
     = Some (ascii ''[{"slug":"crabby-bills"},{"slug":"crabby-bills-12345"}]'')\<close>
  "files crabby_site (FILE_AREAS site) = Some (ascii ''[]'')"
  "files crabby_site (FILE_CUISINES site) = Some (ascii ''[]'')"
  by (simp_all add: crabby_site_def empty_site_def path_eval)

lemma load_empty_site: "load ascii_platform site empty_site = Inr ([], [], [])"
  by (simp add: load_def readJson_def empty_site_files parse_known
      extractAreaKeys_def extractCuisineNames_def)

lemma load_crabby_site: "load ascii_platform site crabby_site = Inr (crabby_store, [], [])"
  by (simp add: load_def readJson_def crabby_site_files parse_known parse_crabby
      extractAreaKeys_def extractCuisineNames_def)

lemma existing_crabby:
  "existing crabby_store = [JStr (ascii ''crabby-bills''), JStr (ascii ''crabby-bills-12345'')]"
  by (simp add: existing_def crabby_store_def List.map_filter_simps ascii_def)

lemma trim_empty: "trim [] = []"
  by (simp add: trim_def)

lemma parseList_empty: "parseList [] = []"
  by (simp add: parseList_def trim_def)

lemma parseList_blank: "parseList (ascii '' , '') = []"
  by (simp add: parseList_def trim_def ascii_def white_space_def)

lemma parseList_seafood: "parseList (ascii ''Seafood, BBQ'') = [ascii ''Seafood'', ascii ''BBQ'']"
  by (simp add: parseList_def trim_def ascii_def white_space_def)

lemma trim_crabby:
  "trim (ascii ''Crabby Bills'') = ascii ''Crabby Bills''"
  "trim (ascii ''fenwick-island'') = ascii ''fenwick-island''"
  "trim (ascii '' cheap '') = ascii ''cheap''"
  by (simp_all add: trim_def ascii_def white_space_def)

lemma ascii_nonempty:
  "ascii ''Crabby Bills'' \<noteq> []" "ascii ''crabby-bills'' \<noteq> []"
  "ascii ''fenwick-island'' \<noteq> []" "ascii ''cheap'' \<noteq> []"
  by (simp_all add: ascii_def)

lemma slugify_crabby:
  "slugify ascii_platform [] = []"
  "slugify ascii_platform (ascii ''Crabby Bills'') = ascii ''crabby-bills''"
  by (simp_all add: slug_eval)

lemma candidate_crabby:
  "candidate_slug ascii_platform [] (ascii ''Crabby Bills'') = ascii ''crabby-bills''"
  by (simp add: candidate_slug_def slugify_crabby)

lemma featured_yes: "yesNoToBool ascii_platform (ascii ''y'') False = True"
  by (simp add: yesNoToBool_def ascii_platform_def trim_def ascii_def white_space_def
      ascii_lower_def)

lemma collect_crabby:
  "collect ascii_platform now crabby_answers rs [] [] =
     Inr (crabby_entry (unique_slug now rs (ascii ''crabby-bills'')) (ascii ''$$''))"
  by (simp add: collect_def Let_def crabby_answers_def crabby_entry_def trim_crabby trim_empty
      ascii_nonempty candidate_crabby unique_slug_nonempty parseList_seafood parseList_empty
      featured_yes)

lemma collect_crabby_cheap:
  "collect ascii_platform now (crabby_answers\<lparr>q_price := ascii '' cheap ''\<rparr>) rs [] [] =
     Inr (crabby_entry (unique_slug now rs (ascii ''crabby-bills'')) (ascii ''cheap''))"
  by (simp add: collect_def Let_def crabby_answers_def crabby_entry_def trim_crabby trim_empty
      ascii_nonempty candidate_crabby unique_slug_nonempty parseList_seafood parseList_empty
      featured_yes)

lemma collect_crabby_blank:
  "collect ascii_platform now (crabby_answers\<lparr>q_cuisines := ascii '' , ''\<rparr>) rs [] [] =
     Inl (Error ''At least one cuisine is required.'')"
  by (simp add: collect_def Let_def crabby_answers_def trim_crabby trim_empty
      ascii_nonempty candidate_crabby unique_slug_nonempty parseList_blank)

lemma unique_slug_fresh: "unique_slug now [] sl = sl"
  by (simp add: unique_slug_def existing_def List.map_filter_simps)

lemma unique_slug_crabby_0:
  "unique_slug 0 crabby_store (ascii ''crabby-bills'') = ascii ''crabby-bills-0''"
  by (simp add: unique_slug_def existing_crabby number_toString_def slice_last_def
      digits.simps ascii_def)

lemma unique_slug_crabby_12345:
  "unique_slug 1700000012345 crabby_store (ascii ''crabby-bills'') = ascii ''crabby-bills-12345''"
  by (simp add: unique_slug_def existing_crabby number_toString_def slice_last_def
      digits.simps ascii_def)

lemma provision_empty_site: "\<exists>w1. provision site empty_site sl = Inr w1"
  by (simp add: provision_def Let_def ensureDir_def empty_site_def path_eval)

lemma provision_crabby_site: "\<exists>w1. provision site crabby_site sl = Inr w1"
  by (simp add: provision_def Let_def ensureDir_def empty_site_def crabby_site_def path_eval)

lemma main_entry:
  assumes "load rt ROOT w = Inr (rs, areaKeys, cuisineNames)"
    and "collect rt now a rs areaKeys cuisineNames = Inr en"
    and "\<exists>w1. provision ROOT w (slug en) = Inr w1"
  shows "fst (main rt ROOT now a w) = Inr en"
  using assms by (auto simp: main_def)

lemma main_pair: "fst (main rt ROOT now a w) = r \<Longrightarrow> main rt ROOT now a w = (r, snd (main rt ROOT now a w))"
  by (metis prod.collapse)

section \<open>Claims about the lookup loaders\<close>

lemma area_keys_of_strings: "extractAreaKeys (JArr (map JStr ss)) = []"
  by (induction ss) (simp_all add: extractAreaKeys_def)

lemma cuisine_names_of_strings: "extractCuisineNames (JArr (map JStr ss)) = map JStr ss"
  by (cases ss) (simp_all add: extractCuisineNames_def)

lemma cuisine_names_of_objects:
  "extractCuisineNames (JArr (map (\<lambda>n. JObj [(ascii ''name'', JStr n)]) ns))
     = map JStr (filter (\<lambda>n. n \<noteq> []) ns)"
proof -
  let ?pick = "\<lambda>c. coalesce (property c ''name'')
                 (coalesce (property c ''key'') (coalesce (property c ''id'') JNull))"
  have pick: "?pick (JObj [(ascii ''name'', JStr n)]) = JStr n" for n
    by simp
  have "filter truthy (map ?pick (map (\<lambda>n. JObj [(ascii ''name'', JStr n)]) ns))
          = map JStr (filter (\<lambda>n. n \<noteq> []) ns)"
    by (induction ns) (simp_all add: pick del: property.simps coalesce.simps)
  then show ?thesis
    by (cases ns) (simp_all add: extractCuisineNames_def del: property.simps coalesce.simps)
qed

text \<open>
  C3, as the code has it. Given the area table \<open>[{"key":"fenwick-island","name":"Fenwick Island"}]\<close>
  the area loader returns \<open>["fenwick-island"]\<close>; given a list of plain strings it returns the
  empty list, since a string has none of the fields \<open>key\<close>, \<open>id\<close>, \<open>slug\<close> and is dropped. The
  cuisine loader returns a list of plain strings as it is, and from a list of objects with a
  \<open>name\<close> it returns the non-empty names. Given \<open>[]\<close> either loader returns \<open>[]\<close>.
\<close>

theorem lookup_loader_shapes:
  "extractAreaKeys
     (JArr [JObj [(ascii ''key'', JStr (ascii ''fenwick-island'')),
                  (ascii ''name'', JStr (ascii ''Fenwick Island''))]])
     = [JStr (ascii ''fenwick-island'')] \<and>
   extractAreaKeys (JArr (map JStr ss)) = [] \<and>
   extractCuisineNames (JArr (map JStr ss)) = map JStr ss \<and>
   extractCuisineNames (JArr (map (\<lambda>n. JObj [(ascii ''name'', JStr n)]) ns))
     = map JStr (filter (\<lambda>n. n \<noteq> []) ns) \<and>
   extractAreaKeys (JArr []) = [] \<and>
   extractCuisineNames (JArr []) = []"
proof -
  have "extractAreaKeys
     (JArr [JObj [(ascii ''key'', JStr (ascii ''fenwick-island'')),
                  (ascii ''name'', JStr (ascii ''Fenwick Island''))]])
     = [JStr (ascii ''fenwick-island'')]"
    by (simp add: extractAreaKeys_def ascii_def)
  moreover have "extractAreaKeys (JArr []) = []" "extractCuisineNames (JArr []) = []"
    by (simp_all add: extractAreaKeys_def extractCuisineNames_def)
  ultimately show ?thesis
    using area_keys_of_strings [of ss] cuisine_names_of_strings [of ss]
      cuisine_names_of_objects [of ns]
    by simp
qed

text \<open>
  C3 as stated fails: on the plain-string area table \<open>["fenwick-island"]\<close> the area loader does
  not return \<open>["fenwick-island"]\<close>.
\<close>

theorem plain_string_areas_dropped:
  "extractAreaKeys (JArr [JStr (ascii ''fenwick-island'')]) \<noteq> [JStr (ascii ''fenwick-island'')]"
  by (simp add: extractAreaKeys_def)

section \<open>The price of the new record\<close>

text \<open>
  C8, as the code has it. The price of the committed record is the operator's answer with
  the surrounding white space removed, and \<open>$$\<close> when nothing is left of it; the answer is not
  compared with the tier symbols.
\<close>

theorem price_is_the_answer:
  assumes "fst (main rt ROOT now a w) = Inr en"
  shows "price en = (if trim (q_price a) = [] then ascii ''$$'' else trim (q_price a))"
proof -
  from main_success [OF main_pair [OF assms]] obtain rs ak cn where
    "collect rt now a rs ak cn = Inr en" by blast
  from collect_success(7) [OF this] show ?thesis by simp
qed

lemma main_cheap:
  "fst (main ascii_platform site 0 (crabby_answers\<lparr>q_price := ascii '' cheap ''\<rparr>) empty_site)
     = Inr (crabby_entry (ascii ''crabby-bills'') (ascii ''cheap''))"
proof -
  have "collect ascii_platform 0 (crabby_answers\<lparr>q_price := ascii '' cheap ''\<rparr>) [] [] []
          = Inr (crabby_entry (ascii ''crabby-bills'') (ascii ''cheap''))"
    by (simp add: collect_crabby_cheap unique_slug_fresh)
  from main_entry [OF load_empty_site this provision_empty_site] show ?thesis .
qed

theorem price_is_the_answer_witness:
  "fst (main ascii_platform site 0 (crabby_answers\<lparr>q_price := ascii '' cheap ''\<rparr>) empty_site)
     = Inr (crabby_entry (ascii ''crabby-bills'') (ascii ''cheap'')) \<and>
   price (crabby_entry (ascii ''crabby-bills'') (ascii ''cheap'')) = ascii ''cheap''"
  using price_is_the_answer [OF main_cheap] main_cheap
  by (simp add: crabby_answers_def trim_crabby ascii_nonempty)

text \<open>
  C8 as stated fails: the answer \<open>cheap\<close> is committed as the price, and it is none of \<open>$\<close>,
  \<open>$$\<close>, \<open>$$$\<close>.
\<close>

theorem price_cheap_committed:
  "map_sum id price
     (fst (main ascii_platform site 0 (crabby_answers\<lparr>q_price := ascii '' cheap ''\<rparr>) empty_site))
     = Inr (ascii ''cheap'') \<and>
   ascii ''cheap'' \<notin> set (map ascii [''$'', ''$$'', ''$$$''])"
  by (simp add: main_cheap crabby_entry_def) (simp add: ascii_def)

section \<open>Aborting and committing\<close>

text \<open>
  C2. When the answer to the cuisines prompt gives an empty list after splitting at the
  commas, trimming and dropping the empty items, the run ends in an error with exit status
  1 and leaves the world as it found it: no file is written, the store among them. And a run
  that does write the store has an entry whose name, slug, area key and cuisines passed the
  checks, and writes the store exactly once.
\<close>

theorem empty_cuisines_abort:
  "(parseList (q_cuisines a) = [] \<longrightarrow>
      (\<exists>e. main rt ROOT now a w = (Inl e, w)) \<and> run rt ROOT now a w = (1, w)) \<and>
   (FILE_RESTAURANTS ROOT \<in> set (drop (length (writes w)) (writes (snd (main rt ROOT now a w)))) \<longrightarrow>
      (\<exists>en. fst (main rt ROOT now a w) = Inr en \<and> name en \<noteq> [] \<and> slug en \<noteq> [] \<and>
            areaKey en \<noteq> [] \<and> cuisines en = parseList (q_cuisines a) \<and> cuisines en \<noteq> []) \<and>
      filter (\<lambda>p. p = FILE_RESTAURANTS ROOT)
        (drop (length (writes w)) (writes (snd (main rt ROOT now a w))))
        = [FILE_RESTAURANTS ROOT])"
proof (intro conjI impI)
  assume c: "parseList (q_cuisines a) = []"
  from main_no_cuisines [OF c] show "\<exists>e. main rt ROOT now a w = (Inl e, w)" .
  then show "run rt ROOT now a w = (1, w)" by (auto simp: run_error)
next
  assume wr: "FILE_RESTAURANTS ROOT
                \<in> set (drop (length (writes w)) (writes (snd (main rt ROOT now a w))))"
  obtain r w' where m: "main rt ROOT now a w = (r, w')" by (cases "main rt ROOT now a w")
  have "\<exists>en. r = Inr en"
  proof (cases r)
    case (Inl e)
    with m main_error_world have "w' = w" by blast
    with wr m show ?thesis by simp
  next
    case (Inr en)
    then show ?thesis by simp
  qed
  then obtain en where r: "r = Inr en" ..
  from main_success [OF m [unfolded r]] obtain rs ak cn where
    col: "collect rt now a rs ak cn = Inr en" by blast
  note cs = collect_success [OF col]
  from cs(3,4) have "slug en \<noteq> []" by (simp add: unique_slug_nonempty)
  with cs m r
  show "\<exists>en. fst (main rt ROOT now a w) = Inr en \<and> name en \<noteq> [] \<and> slug en \<noteq> [] \<and>
            areaKey en \<noteq> [] \<and> cuisines en = parseList (q_cuisines a) \<and> cuisines en \<noteq> []"
    by simp
  from main_store_write [OF m [unfolded r]] m
  show "filter (\<lambda>p. p = FILE_RESTAURANTS ROOT)
        (drop (length (writes w)) (writes (snd (main rt ROOT now a w))))
        = [FILE_RESTAURANTS ROOT]" by simp
qed

lemma main_crabby:
  "fst (main ascii_platform site 0 crabby_answers empty_site)
     = Inr (crabby_entry (ascii ''crabby-bills'') (ascii ''$$''))"
proof -
  have "collect ascii_platform 0 crabby_answers [] [] []
          = Inr (crabby_entry (ascii ''crabby-bills'') (ascii ''$$''))"
    by (simp add: collect_crabby unique_slug_fresh)
  from main_entry [OF load_empty_site this provision_empty_site] show ?thesis .
qed

lemma main_blank_cuisines:
  "main ascii_platform site 0 (crabby_answers\<lparr>q_cuisines := ascii '' , ''\<rparr>) empty_site
     = (Inl (Error ''At least one cuisine is required.''), empty_site)"
  by (simp add: main_def load_empty_site collect_crabby_blank)

theorem empty_cuisines_abort_witness:
  "parseList (q_cuisines (crabby_answers\<lparr>q_cuisines := ascii '' , ''\<rparr>)) = [] \<and>
   main ascii_platform site 0 (crabby_answers\<lparr>q_cuisines := ascii '' , ''\<rparr>) empty_site
     = (Inl (Error ''At least one cuisine is required.''), empty_site) \<and>
   run ascii_platform site 0 (crabby_answers\<lparr>q_cuisines := ascii '' , ''\<rparr>) empty_site
     = (1, empty_site) \<and>
   FILE_RESTAURANTS site
     \<in> set (drop (length (writes empty_site))
              (writes (snd (main ascii_platform site 0 crabby_answers empty_site)))) \<and>
   cuisines (crabby_entry (ascii ''crabby-bills'') (ascii ''$$''))
     = parseList (q_cuisines crabby_answers)"
proof -
  have blank: "parseList (q_cuisines (crabby_answers\<lparr>q_cuisines := ascii '' , ''\<rparr>)) = []"
    by (simp add: parseList_blank)
  have wr: "FILE_RESTAURANTS site
     \<in> set (drop (length (writes empty_site))
              (writes (snd (main ascii_platform site 0 crabby_answers empty_site))))"
    using main_store_write [OF main_pair [OF main_crabby]]
    by (metis filter_eq_ConsD in_set_conv_decomp)
  from empty_cuisines_abort
         [of "crabby_answers\<lparr>q_cuisines := ascii '' , ''\<rparr>" ascii_platform site 0 empty_site]
    empty_cuisines_abort [of crabby_answers ascii_platform site 0 empty_site]
    blank wr main_crabby main_blank_cuisines
  show ?thesis by auto
qed

section \<open>Reference tables\<close>

lemma readJson_fails:
  "files w f = None \<or> (\<exists>t. files w f = Some t \<and> JSON_parse rt t = None) \<Longrightarrow>
   \<exists>e. readJson rt w f = Inl e"
  by (auto simp: readJson_def)

lemma load_table_fails:
  assumes "(\<exists>e. readJson rt w (FILE_AREAS ROOT) = Inl e) \<or>
           (\<exists>e. readJson rt w (FILE_CUISINES ROOT) = Inl e)"
  shows "\<exists>e. load rt ROOT w = Inl e"
  using assms by (auto simp: load_def split: sum.splits json.splits)

lemma unresolvable_area:
  "unresolvable [''key'', ''id'', ''slug''] a \<Longrightarrow>
   coalesce (property a ''key'')
     (coalesce (property a ''id'') (coalesce (property a ''slug'') JNull)) = JNull"
  by (auto simp: unresolvable_def)

lemma unresolvable_cuisine:
  "unresolvable [''name'', ''key'', ''id''] c \<Longrightarrow>
   coalesce (property c ''name'')
     (coalesce (property c ''key'') (coalesce (property c ''id'') JNull)) = JNull"
  by (auto simp: unresolvable_def)

lemma filter_all_null: "\<forall>x\<in>set xs. f x = JNull \<Longrightarrow> filter truthy (map f xs) = []"
  by (induction xs) simp_all

lemma unrecognised_areas_empty: "unrecognised_areas u \<Longrightarrow> extractAreaKeys u = []"
proof (cases u)
  case (JArr as)
  assume "unrecognised_areas u"
  with JArr have "\<forall>a\<in>set as. unresolvable [''key'', ''id'', ''slug''] a"
    by (simp add: unrecognised_areas_def list_all_iff)
  then show ?thesis
    by (simp add: JArr extractAreaKeys_def filter_all_null unresolvable_area
        del: coalesce.simps property.simps)
qed (simp_all add: extractAreaKeys_def)

lemma unrecognised_cuisines_empty: "unrecognised_cuisines v \<Longrightarrow> extractCuisineNames v = []"
proof (cases v)
  case (JArr cs)
  assume u: "unrecognised_cuisines v"
  with JArr have all: "\<forall>c\<in>set cs. unresolvable [''name'', ''key'', ''id''] c"
    by (auto simp: unrecognised_cuisines_def list_all_iff split: list.splits json.splits)
  from u JArr have "\<forall>s rest. cs \<noteq> JStr s # rest"
    by (auto simp: unrecognised_cuisines_def)
  then have "extractCuisineNames (JArr cs) =
          filter truthy
            (map (\<lambda>c. coalesce (property c ''name'')
                        (coalesce (property c ''key'') (coalesce (property c ''id'') JNull))) cs)"
    by (auto simp: extractCuisineNames_def split: list.splits json.splits)
  with all show ?thesis
    by (simp add: JArr filter_all_null unresolvable_cuisine
        del: coalesce.simps property.simps)
qed (simp_all add: extractCuisineNames_def)

lemma harmless_areas:
  "\<not> (areaKeys \<noteq> [] \<and> join_throws areaKeys) \<Longrightarrow>
   collect rt now a rs areaKeys cuisineNames = collect rt now a rs [] cuisineNames"
  by (auto simp: collect_def Let_def)

lemma harmless_cuisines:
  "\<not> (cuisineNames \<noteq> [] \<and> join_throws cuisineNames) \<Longrightarrow>
   collect rt now a rs areaKeys cuisineNames = collect rt now a rs areaKeys []"
  by (auto simp: collect_def Let_def)

text \<open>
  C4, as the code has it. When the file of a reference table is absent or its text does not
  parse, \<open>readJson\<close> raises: the run ends in one and the same error whatever the operator
  would answer, so before the first prompt, with exit status 1 and the world as it was.
  When a table parses to a value of an unrecognised shape, its loader yields the empty list
  without an error and the run proceeds, whatever the other table holds: the loading
  succeeds with no suggestion from that table, and the prompts go as they go with any list
  of suggestions that can be printed.
\<close>

theorem reference_tables:
  "((files w (FILE_AREAS ROOT) = None \<or>
     (\<exists>t. files w (FILE_AREAS ROOT) = Some t \<and> JSON_parse rt t = None) \<or>
     files w (FILE_CUISINES ROOT) = None \<or>
     (\<exists>t. files w (FILE_CUISINES ROOT) = Some t \<and> JSON_parse rt t = None)) \<longrightarrow>
      (\<exists>e. \<forall>clock answers.
         main rt ROOT clock answers w = (Inl e, w) \<and> run rt ROOT clock answers w = (1, w))) \<and>
   (readJson rt w (FILE_AREAS ROOT) = Inr u \<and> unrecognised_areas u \<longrightarrow>
      extractAreaKeys u = [] \<and>
      (\<forall>rs c. readJson rt w (FILE_RESTAURANTS ROOT) = Inr (JArr rs) \<and>
              readJson rt w (FILE_CUISINES ROOT) = Inr c \<longrightarrow>
              load rt ROOT w = Inr (rs, [], extractCuisineNames c))) \<and>
   (readJson rt w (FILE_CUISINES ROOT) = Inr v \<and> unrecognised_cuisines v \<longrightarrow>
      extractCuisineNames v = [] \<and>
      (\<forall>rs u'. readJson rt w (FILE_RESTAURANTS ROOT) = Inr (JArr rs) \<and>
               readJson rt w (FILE_AREAS ROOT) = Inr u' \<longrightarrow>
               load rt ROOT w = Inr (rs, extractAreaKeys u', []))) \<and>
   (\<forall>areaKeys cuisineNames.
      \<not> (areaKeys \<noteq> [] \<and> join_throws areaKeys) \<longrightarrow>
      collect rt now a rs areaKeys cuisineNames = collect rt now a rs [] cuisineNames) \<and>
   (\<forall>areaKeys cuisineNames.
      \<not> (cuisineNames \<noteq> [] \<and> join_throws cuisineNames) \<longrightarrow>
      collect rt now a rs areaKeys cuisineNames = collect rt now a rs areaKeys [])"
proof (intro conjI impI allI)
  assume "files w (FILE_AREAS ROOT) = None \<or>
     (\<exists>t. files w (FILE_AREAS ROOT) = Some t \<and> JSON_parse rt t = None) \<or>
     files w (FILE_CUISINES ROOT) = None \<or>
     (\<exists>t. files w (FILE_CUISINES ROOT) = Some t \<and> JSON_parse rt t = None)"
  then have "(\<exists>e. readJson rt w (FILE_AREAS ROOT) = Inl e) \<or>
           (\<exists>e. readJson rt w (FILE_CUISINES ROOT) = Inl e)"
    using readJson_fails [of w "FILE_AREAS ROOT" rt] readJson_fails [of w "FILE_CUISINES ROOT" rt]
    by blast
  from load_table_fails [OF this] obtain e where "load rt ROOT w = Inl e" ..
  then have "\<forall>clock answers.
         main rt ROOT clock answers w = (Inl e, w) \<and> run rt ROOT clock answers w = (1, w)"
    by (simp add: main_def run_def)
  then show "\<exists>e. \<forall>clock answers.
         main rt ROOT clock answers w = (Inl e, w) \<and> run rt ROOT clock answers w = (1, w)" ..
next
  assume "readJson rt w (FILE_AREAS ROOT) = Inr u \<and> unrecognised_areas u"
  then show "extractAreaKeys u = []" by (simp add: unrecognised_areas_empty)
next
  fix rs c
  assume "readJson rt w (FILE_AREAS ROOT) = Inr u \<and> unrecognised_areas u"
    and "readJson rt w (FILE_RESTAURANTS ROOT) = Inr (JArr rs) \<and>
         readJson rt w (FILE_CUISINES ROOT) = Inr c"
  then show "load rt ROOT w = Inr (rs, [], extractCuisineNames c)"
    by (simp add: load_def unrecognised_areas_empty)
next
  assume "readJson rt w (FILE_CUISINES ROOT) = Inr v \<and> unrecognised_cuisines v"
  then show "extractCuisineNames v = []" by (simp add: unrecognised_cuisines_empty)
next
  fix rs u'
  assume "readJson rt w (FILE_CUISINES ROOT) = Inr v \<and> unrecognised_cuisines v"
    and "readJson rt w (FILE_RESTAURANTS ROOT) = Inr (JArr rs) \<and>
         readJson rt w (FILE_AREAS ROOT) = Inr u'"
  then show "load rt ROOT w = Inr (rs, extractAreaKeys u', [])"
    by (simp add: load_def unrecognised_cuisines_empty)
next
  fix areaKeys cuisineNames :: "json list"
  assume "\<not> (areaKeys \<noteq> [] \<and> join_throws areaKeys)"
  then show "collect rt now a rs areaKeys cuisineNames = collect rt now a rs [] cuisineNames"
    by (rule harmless_areas)
next
  fix areaKeys cuisineNames :: "json list"
  assume "\<not> (cuisineNames \<noteq> [] \<and> join_throws cuisineNames)"
  then show "collect rt now a rs areaKeys cuisineNames = collect rt now a rs areaKeys []"
    by (rule harmless_cuisines)
qed

lemma no_areas_file:
  "files (empty_site\<lparr>files := (files empty_site)(FILE_AREAS site := None)\<rparr>) (FILE_AREAS site)
     = None"
  by simp

lemma odd_tables_files:
  "files odd_tables_site (FILE_RESTAURANTS site) = Some (ascii ''[]'')"
  "files odd_tables_site (FILE_AREAS site) = Some (ascii ''{}'')"
  "files odd_tables_site (FILE_CUISINES site) = Some (ascii ''[null]'')"
  by (simp_all add: odd_tables_site_def empty_site_def path_eval)

lemma odd_tables_read:
  "readJson ascii_platform odd_tables_site (FILE_RESTAURANTS site) = Inr (JArr [])"
  "readJson ascii_platform odd_tables_site (FILE_AREAS site) = Inr (JObj [])"
  "readJson ascii_platform odd_tables_site (FILE_CUISINES site) = Inr (JArr [JNull])"
  by (simp_all add: readJson_def odd_tables_files parse_known)

lemma odd_tables_unrecognised:
  "unrecognised_areas (JObj [])" "unrecognised_cuisines (JArr [JNull])"
  by (simp_all add: unrecognised_areas_def unrecognised_cuisines_def unresolvable_def)

lemma provision_odd_tables_site: "\<exists>w1. provision site odd_tables_site sl = Inr w1"
  by (simp add: provision_def Let_def ensureDir_def odd_tables_site_def empty_site_def path_eval)

lemma no_areas_store:
  "files (empty_site\<lparr>files := (files empty_site)(FILE_AREAS site := None)\<rparr>)
     (FILE_RESTAURANTS site) = Some (ascii ''[]'')"
  by (simp add: empty_site_def path_eval)

theorem reference_tables_witness:
  "files (empty_site\<lparr>files := (files empty_site)(FILE_AREAS site := None)\<rparr>) (FILE_AREAS site)
     = None \<and>
   run ascii_platform site 0 crabby_answers
     (empty_site\<lparr>files := (files empty_site)(FILE_AREAS site := None)\<rparr>)
     = (1, empty_site\<lparr>files := (files empty_site)(FILE_AREAS site := None)\<rparr>) \<and>
   readJson ascii_platform odd_tables_site (FILE_AREAS site) = Inr (JObj []) \<and>
   unrecognised_areas (JObj []) \<and>
   readJson ascii_platform odd_tables_site (FILE_CUISINES site) = Inr (JArr [JNull]) \<and>
   unrecognised_cuisines (JArr [JNull]) \<and>
   load ascii_platform site odd_tables_site = Inr ([], [], []) \<and>
   fst (main ascii_platform site 0 crabby_answers odd_tables_site)
     = Inr (crabby_entry (ascii ''crabby-bills'') (ascii ''$$''))"
proof -
  let ?w = "empty_site\<lparr>files := (files empty_site)(FILE_AREAS site := None)\<rparr>"
  note t1 = reference_tables [of ?w site ascii_platform, THEN conjunct1, THEN mp]
  note t2 = reference_tables
      [of odd_tables_site site ascii_platform "JObj []" "JArr [JNull]",
       THEN conjunct2, THEN conjunct1, THEN mp]
  note t3 = reference_tables
      [of odd_tables_site site ascii_platform "JObj []" "JArr [JNull]",
       THEN conjunct2, THEN conjunct2, THEN conjunct1, THEN mp]
  have "files ?w (FILE_AREAS site) = None \<or>
     (\<exists>t. files ?w (FILE_AREAS site) = Some t \<and> JSON_parse ascii_platform t = None) \<or>
     files ?w (FILE_CUISINES site) = None \<or>
     (\<exists>t. files ?w (FILE_CUISINES site) = Some t \<and> JSON_parse ascii_platform t = None)"
    using no_areas_file by (rule disjI1)
  from t1 [OF this] obtain e where
    "\<forall>clock answers. main ascii_platform site clock answers ?w = (Inl e, ?w) \<and>
        run ascii_platform site clock answers ?w = (1, ?w)" ..
  then have "main ascii_platform site 0 crabby_answers ?w = (Inl e, ?w) \<and>
        run ascii_platform site 0 crabby_answers ?w = (1, ?w)"
    by (elim allE)
  then have a: "run ascii_platform site 0 crabby_answers ?w = (1, ?w)" by (rule conjunct2)
  have "readJson ascii_platform odd_tables_site (FILE_AREAS site) = Inr (JObj []) \<and>
        unrecognised_areas (JObj [])"
    by (simp add: odd_tables_read odd_tables_unrecognised)
  from t2 [OF this]
  have "\<forall>rs c. readJson ascii_platform odd_tables_site (FILE_RESTAURANTS site) = Inr (JArr rs) \<and>
              readJson ascii_platform odd_tables_site (FILE_CUISINES site) = Inr c \<longrightarrow>
              load ascii_platform site odd_tables_site = Inr (rs, [], extractCuisineNames c)"
    by (rule conjunct2)
  then have c: "load ascii_platform site odd_tables_site
                  = Inr ([], [], extractCuisineNames (JArr [JNull]))"
    by (simp add: odd_tables_read)
  have "readJson ascii_platform odd_tables_site (FILE_CUISINES site) = Inr (JArr [JNull]) \<and>
        unrecognised_cuisines (JArr [JNull])"
    by (simp add: odd_tables_read odd_tables_unrecognised)
  from t3 [OF this] have b: "extractCuisineNames (JArr [JNull]) = []" by (rule conjunct1)
  from c b have ld: "load ascii_platform site odd_tables_site = Inr ([], [], [])" by simp
  have col: "collect ascii_platform 0 crabby_answers [] [] []
          = Inr (crabby_entry (ascii ''crabby-bills'') (ascii ''$$''))"
    by (simp add: collect_crabby unique_slug_fresh)
  have m: "fst (main ascii_platform site 0 crabby_answers odd_tables_site)
     = Inr (crabby_entry (ascii ''crabby-bills'') (ascii ''$$''))"
    by (rule main_entry [OF ld col provision_odd_tables_site])
  show ?thesis
    by (simp only: no_areas_file a odd_tables_read odd_tables_unrecognised ld m simp_thms)
qed

text \<open>
  C4 as stated fails: with the areas file absent, the run does not proceed; it ends in the
  error of the missing file, with exit status 1.
\<close>

theorem missing_areas_file_aborts:
  "files (empty_site\<lparr>files := (files empty_site)(FILE_AREAS site := None)\<rparr>) (FILE_AREAS site)
     = None \<and>
   main ascii_platform site 0 crabby_answers
     (empty_site\<lparr>files := (files empty_site)(FILE_AREAS site := None)\<rparr>)
     = (Inl (ENOENT (FILE_AREAS site)),
        empty_site\<lparr>files := (files empty_site)(FILE_AREAS site := None)\<rparr>) \<and>
   fst (run ascii_platform site 0 crabby_answers
     (empty_site\<lparr>files := (files empty_site)(FILE_AREAS site := None)\<rparr>)) = 1"
proof -
  have "readJson ascii_platform
          (empty_site\<lparr>files := (files empty_site)(FILE_AREAS site := None)\<rparr>)
          (FILE_RESTAURANTS site) = Inr (JArr [])"
    by (simp only: readJson_def no_areas_store parse_known option.case)
  moreover have "readJson ascii_platform
          (empty_site\<lparr>files := (files empty_site)(FILE_AREAS site := None)\<rparr>)
          (FILE_AREAS site) = Inl (ENOENT (FILE_AREAS site))"
    by (simp only: readJson_def no_areas_file option.case)
  ultimately have "load ascii_platform site
          (empty_site\<lparr>files := (files empty_site)(FILE_AREAS site := None)\<rparr>)
          = Inl (ENOENT (FILE_AREAS site))"
    by (simp add: load_def)
  then show ?thesis by (simp add: main_def run_def)
qed

section \<open>Commit\<close>

lemma entry_slug: "property (entry_json en) ''slug'' = Some (JStr (slug en))"
  by (simp add: entry_json_def ascii_def)

lemma unique_slug_differs:
  "JStr sl \<in> set (existing rs) \<Longrightarrow> unique_slug now rs sl \<noteq> sl"
  by (simp add: unique_slug_def ascii_def)

lemma existing_member:
  "r \<in> set rs \<Longrightarrow> property r ''slug'' = Some (JStr sl) \<Longrightarrow> sl \<noteq> [] \<Longrightarrow>
   JStr sl \<in> set (existing rs)"
  by (force simp: existing_def List.map_filter_def)

lemma provision_store:
  assumes "provision ROOT w sl = Inr w1"
  shows "files w1 (FILE_RESTAURANTS ROOT) = files w (FILE_RESTAURANTS ROOT)"
proof -
  have "FILE_RESTAURANTS ROOT
          \<noteq> (ROOT @ map ascii [''public'', ''images'', ''restaurants''] @ [sl]) @ [ascii ''1.jpg'']"
    using photo_not_store [of ROOT sl] by simp
  with assms show ?thesis
    by (auto simp: provision_def Let_def ensureDir_def copyPlaceholderIfExists_def
        split: if_splits option.splits)
qed

lemma ascii_keys_not_indices:
  "array_index (ascii ''name'') = None" "array_index (ascii ''slug'') = None"
  "array_index (ascii ''areaKey'') = None" "array_index (ascii ''address'') = None"
  "array_index (ascii ''price'') = None" "array_index (ascii ''cuisines'') = None"
  "array_index (ascii ''vibes'') = None" "array_index (ascii ''goodFor'') = None"
  "array_index (ascii ''shortBlurb'') = None" "array_index (ascii ''longBlurb'') = None"
  "array_index (ascii ''mustTry'') = None" "array_index (ascii ''website'') = None"
  "array_index (ascii ''menuUrl'') = None" "array_index (ascii ''photos'') = None"
  "array_index (ascii ''featured'') = None"
  by (simp_all add: array_index_def ascii_def digit_def)

lemma strings_read_back: "list_all (reads_back T N) (map JStr ss)"
  by (simp add: list_all_iff)

lemma entry_keys_distinct: "distinct (map fst (case entry_json e of JObj kvs \<Rightarrow> kvs | _ \<Rightarrow> []))"
  by (simp add: entry_json_def ascii_def)

lemma entry_reads_back: "reads_back T N (entry_json e)"
  using entry_keys_distinct [of e]
  by (simp add: entry_json_def ascii_keys_not_indices strings_read_back)

lemma entries_read_back: "list_all (reads_back T N) (map entry_json es)"
  by (simp add: list_all_iff entry_reads_back)

lemma read_after_write:
  "readJson rt (writeJson rt w file data) file =
     (case JSON_parse rt (JSON_stringify rt data @ [0x0A]) of
        None \<Rightarrow> Inl SyntaxError
      | Some v \<Rightarrow> Inr v)"
  by (simp add: readJson_def writeJson_def Let_def)

lemma written_value_read:
  assumes "ecma_json rt" and "reads_back (Number_toString rt) (StringToNumber rt) data"
  shows "readJson rt (writeJson rt w file data) file = Inr data"
proof -
  have "list_all json_ws [0x0A]" by (simp add: json_ws_def)
  from parse_serialized [OF assms(2) this] assms(1)
  have "JSON_parse rt (JSON_stringify rt data @ [0x0A]) = Some data"
    by (simp add: ecma_json_def)
  then show ?thesis by (simp add: read_after_write)
qed

text \<open>
  C6. A run that succeeds serializes into the store file the records that were read from
  it, each as it was and in their order, followed by the new record as the last one; read
  again, the store file gives these records and the new one, for a store of records of the
  data model and for every store whose records are written the way they are read. The new
  record has its slug under \<open>slug\<close>, and when the candidate slug is the slug of a record of the
  store, the slug of the new record differs from it.
\<close>

theorem commit_appends:
  assumes "ecma_json rt" and "fst (main rt ROOT now a w) = Inr en"
  shows "\<exists>rs. readJson rt w (FILE_RESTAURANTS ROOT) = Inr (JArr rs) \<and>
           files (snd (main rt ROOT now a w)) (FILE_RESTAURANTS ROOT)
             = Some (JSON_stringify rt (JArr (rs @ [entry_json en])) @ [0x0A]) \<and>
           (list_all (reads_back (Number_toString rt) (StringToNumber rt)) rs \<longrightarrow>
              readJson rt (snd (main rt ROOT now a w)) (FILE_RESTAURANTS ROOT)
                = Inr (JArr (rs @ [entry_json en]))) \<and>
           (\<forall>es. rs = map entry_json es \<longrightarrow>
              readJson rt (snd (main rt ROOT now a w)) (FILE_RESTAURANTS ROOT)
                = Inr (JArr (map entry_json (es @ [en])))) \<and>
           property (entry_json en) ''slug'' = Some (JStr (slug en)) \<and>
           (\<forall>r\<in>set rs.
              property r ''slug'' = Some (JStr (candidate_slug rt (q_slug a) (trim (q_name a)))) \<longrightarrow>
              slug en \<noteq> candidate_slug rt (q_slug a) (trim (q_name a)) \<and>
              property (entry_json en) ''slug'' \<noteq> property r ''slug'')"
proof -
  let ?c = "candidate_slug rt (q_slug a) (trim (q_name a))"
  let ?w' = "snd (main rt ROOT now a w)"
  let ?T = "Number_toString rt" and ?N = "StringToNumber rt"
  from main_success [OF main_pair [OF assms(2)]] obtain rs ak cn w1 where
    ld: "load rt ROOT w = Inr (rs, ak, cn)" and
    col: "collect rt now a rs ak cn = Inr en" and
    w': "?w' = writeJson rt w1 (FILE_RESTAURANTS ROOT) (JArr (rs @ [entry_json en]))"
    by blast
  note cs = collect_success [OF col]
  have 1: "readJson rt w (FILE_RESTAURANTS ROOT) = Inr (JArr rs)"
    by (rule load_success(1) [OF ld])
  have 2: "files ?w' (FILE_RESTAURANTS ROOT)
             = Some (JSON_stringify rt (JArr (rs @ [entry_json en])) @ [0x0A])"
    by (simp add: w' writeJson_def Let_def)
  have 3: "readJson rt ?w' (FILE_RESTAURANTS ROOT) = Inr (JArr (rs @ [entry_json en]))"
    if "list_all (reads_back ?T ?N) rs"
  proof -
    from that have "reads_back ?T ?N (JArr (rs @ [entry_json en]))"
      by (simp add: entry_reads_back)
    from written_value_read [OF assms(1) this] show ?thesis by (simp add: w')
  qed
  have 4: "readJson rt ?w' (FILE_RESTAURANTS ROOT) = Inr (JArr (map entry_json (es @ [en])))"
    if "rs = map entry_json es" for es
    using 3 that by (simp add: entries_read_back)
  have 5: "property (entry_json en) ''slug'' = Some (JStr (slug en))" by (rule entry_slug)
  have 6: "\<forall>r\<in>set rs. property r ''slug'' = Some (JStr ?c) \<longrightarrow>
              slug en \<noteq> ?c \<and> property (entry_json en) ''slug'' \<noteq> property r ''slug''"
  proof (intro ballI impI)
    fix r assume r: "r \<in> set rs" "property r ''slug'' = Some (JStr ?c)"
    from existing_member [OF r cs(3)] have "unique_slug now rs ?c \<noteq> ?c"
      by (rule unique_slug_differs)
    with cs(4) r(2) show "slug en \<noteq> ?c \<and> property (entry_json en) ''slug'' \<noteq> property r ''slug''"
      by (simp add: entry_slug)
  qed
  from 1 2 3 4 5 6 show ?thesis by blast
qed

lemma main_crabby_site_0:
  "fst (main ascii_platform site 0 crabby_answers crabby_site)
     = Inr (crabby_entry (ascii ''crabby-bills-0'') (ascii ''$$''))"
proof -
  have "collect ascii_platform 0 crabby_answers crabby_store [] []
          = Inr (crabby_entry (ascii ''crabby-bills-0'') (ascii ''$$''))"
    by (simp add: collect_crabby unique_slug_crabby_0)
  from main_entry [OF load_crabby_site this provision_crabby_site] show ?thesis .
qed

lemma read_crabby_store:
  "readJson ascii_platform crabby_site (FILE_RESTAURANTS site) = Inr (JArr crabby_store)"
  by (rule load_success(1) [OF load_crabby_site])

lemma crabby_store_reads_back: "list_all (reads_back T N) crabby_store"
  by (simp add: crabby_store_def ascii_keys_not_indices)

theorem commit_appends_witness:
  "ecma_json ascii_platform \<and>
   fst (main ascii_platform site 0 crabby_answers crabby_site)
     = Inr (crabby_entry (ascii ''crabby-bills-0'') (ascii ''$$'')) \<and>
   readJson ascii_platform crabby_site (FILE_RESTAURANTS site) = Inr (JArr crabby_store) \<and>
   readJson ascii_platform (snd (main ascii_platform site 0 crabby_answers crabby_site))
     (FILE_RESTAURANTS site)
     = Inr (JArr (crabby_store @
                  [entry_json (crabby_entry (ascii ''crabby-bills-0'') (ascii ''$$''))])) \<and>
   property (entry_json (crabby_entry (ascii ''crabby-bills-0'') (ascii ''$$''))) ''slug''
     = Some (JStr (ascii ''crabby-bills-0'')) \<and>
   property (hd crabby_store) ''slug'' = Some (JStr (ascii ''crabby-bills'')) \<and>
   ascii ''crabby-bills-0'' \<noteq> ascii ''crabby-bills''"
proof -
  let ?en = "crabby_entry (ascii ''crabby-bills-0'') (ascii ''$$'')"
  let ?w' = "snd (main ascii_platform site 0 crabby_answers crabby_site)"
  let ?T = "Number_toString ascii_platform" and ?N = "StringToNumber ascii_platform"
  from commit_appends [OF ascii_platform_json main_crabby_site_0] obtain rs where
    rs: "readJson ascii_platform crabby_site (FILE_RESTAURANTS site) = Inr (JArr rs)" and
    again: "list_all (reads_back ?T ?N) rs \<longrightarrow>
             readJson ascii_platform ?w' (FILE_RESTAURANTS site)
               = Inr (JArr (rs @ [entry_json ?en]))" and
    sl: "property (entry_json ?en) ''slug'' = Some (JStr (slug ?en))" and
    d: "\<forall>r\<in>set rs.
          property r ''slug''
            = Some (JStr (candidate_slug ascii_platform (q_slug crabby_answers)
                            (trim (q_name crabby_answers)))) \<longrightarrow>
          slug ?en \<noteq> candidate_slug ascii_platform (q_slug crabby_answers)
                            (trim (q_name crabby_answers)) \<and>
          property (entry_json ?en) ''slug'' \<noteq> property r ''slug''"
    by blast
  from rs read_crabby_store have eq: "rs = crabby_store" by simp
  have c: "candidate_slug ascii_platform (q_slug crabby_answers) (trim (q_name crabby_answers))
             = ascii ''crabby-bills''"
    by (simp add: crabby_answers_def trim_crabby candidate_crabby)
  have h: "hd crabby_store \<in> set crabby_store"
       "property (hd crabby_store) ''slug'' = Some (JStr (ascii ''crabby-bills''))"
    by (simp_all add: crabby_store_def)
  have s: "slug ?en = ascii ''crabby-bills-0''" by (simp add: crabby_entry_def)
  from d [unfolded eq c] h have "slug ?en \<noteq> ascii ''crabby-bills''" by blast
  with s have ne: "ascii ''crabby-bills-0'' \<noteq> ascii ''crabby-bills''" by simp
  from again [unfolded eq] crabby_store_reads_back
  have "readJson ascii_platform ?w' (FILE_RESTAURANTS site)
               = Inr (JArr (crabby_store @ [entry_json ?en]))" by blast
  with ascii_platform_json main_crabby_site_0 read_crabby_store sl s h(2) ne
  show ?thesis by simp
qed

section \<open>The slug of the new record\<close>

text \<open>
  C1 at a failing input. The store holds the slugs \<open>crabby-bills\<close> and \<open>crabby-bills-12345\<close>,
  the operator names Crabby Bills and leaves the slug prompt blank, and the clock reads
  1700000012345. The run succeeds, and the slug of the new record is \<open>crabby-bills-12345\<close>,
  which was in the store before the run.
\<close>

theorem suffixed_slug_already_in_store:
  "slugify ascii_platform (q_slug crabby_answers) = [] \<and>
   readJson ascii_platform crabby_site (FILE_RESTAURANTS site) = Inr (JArr crabby_store) \<and>
   fst (main ascii_platform site 1700000012345 crabby_answers crabby_site)
     = Inr (crabby_entry (ascii ''crabby-bills-12345'') (ascii ''$$'')) \<and>
   slug (crabby_entry (ascii ''crabby-bills-12345'') (ascii ''$$'')) = ascii ''crabby-bills-12345'' \<and>
   JStr (ascii ''crabby-bills-12345'') \<in> set (existing crabby_store)"
proof -
  have "collect ascii_platform 1700000012345 crabby_answers crabby_store [] []
          = Inr (crabby_entry (ascii ''crabby-bills-12345'') (ascii ''$$''))"
    by (simp add: collect_crabby unique_slug_crabby_12345)
  from main_entry [OF load_crabby_site this provision_crabby_site]
  show ?thesis
    by (simp add: read_crabby_store existing_crabby crabby_answers_def slugify_crabby
        crabby_entry_def)
qed

text \<open>
  What does hold of the slug when the slug prompt is left blank and the clock is not
  negative: it is the slug of the name when no record of the store has that slug, and
  otherwise the slug of the name, a hyphen and a non-empty run of decimal digits.
\<close>

lemma digits_nonempty: "digits n \<noteq> []"
  by (subst digits.simps) simp

lemma small_digit: "n < 10 \<Longrightarrow> digit (0x30 + of_nat n)"
proof -
  assume "n < 10"
  then have "n \<in> {0, 1, 2, 3, 4, 5, 6, 7, 8, 9}" by auto
  then show ?thesis by (auto simp: digit_def)
qed

lemma digits_numeric: "list_all digit (digits n)"
proof (induction n rule: digits.induct)
  case (1 n)
  show ?case
  proof (cases "n < 10")
    case True
    then show ?thesis by (subst digits.simps) (simp add: small_digit)
  next
    case False
    with 1 have "list_all digit (digits (n div 10))" by simp
    moreover have "digit (0x30 + of_nat (n mod 10))" by (rule small_digit) simp
    ultimately show ?thesis using False by (subst digits.simps) simp
  qed
qed

lemma slice_last_nonempty: "s \<noteq> [] \<Longrightarrow> 0 < k \<Longrightarrow> slice_last k s \<noteq> []"
  by (cases s) (auto simp: slice_last_def)

lemma slice_last_all: "list_all P s \<Longrightarrow> list_all P (slice_last k s)"
  by (auto simp: slice_last_def list_all_iff dest: in_set_dropD)

lemma time_suffix:
  "0 \<le> now \<Longrightarrow>
   slice_last 5 (number_toString now) \<noteq> [] \<and> list_all digit (slice_last 5 (number_toString now))"
  by (simp add: number_toString_def slice_last_nonempty slice_last_all digits_nonempty
      digits_numeric)

lemma slug_without_explicit_answer:
  assumes ok: "fst (main rt ROOT now a w) = Inr en"
    and blank: "slugify rt (q_slug a) = []"
    and clock: "0 \<le> now"
  shows "\<exists>rs. readJson rt w (FILE_RESTAURANTS ROOT) = Inr (JArr rs) \<and>
           name en \<noteq> [] \<and>
           (JStr (slugify rt (name en)) \<notin> set (existing rs) \<longrightarrow>
              slug en = slugify rt (name en)) \<and>
           (JStr (slugify rt (name en)) \<in> set (existing rs) \<longrightarrow>
              (\<exists>suffix. suffix \<noteq> [] \<and> list_all digit suffix \<and>
                 slug en = slugify rt (name en) @ ascii ''-'' @ suffix))"
proof -
  from main_success [OF main_pair [OF ok]] obtain rs ak cn where
    ld: "load rt ROOT w = Inr (rs, ak, cn)" and
    col: "collect rt now a rs ak cn = Inr en"
    by blast
  note cs = collect_success [OF col]
  from blank cs(1) have c: "candidate_slug rt (q_slug a) (trim (q_name a)) = slugify rt (name en)"
    by (simp add: candidate_slug_def)
  from cs(4) have sl: "slug en = unique_slug now rs (slugify rt (name en))" by (simp add: c)
  have "readJson rt w (FILE_RESTAURANTS ROOT) = Inr (JArr rs)" by (rule load_success(1) [OF ld])
  moreover from cs(1,2) have "name en \<noteq> []" by simp
  moreover have "JStr (slugify rt (name en)) \<notin> set (existing rs) \<longrightarrow>
              slug en = slugify rt (name en)"
    by (simp add: sl unique_slug_def)
  moreover have "JStr (slugify rt (name en)) \<in> set (existing rs) \<longrightarrow>
              (\<exists>suffix. suffix \<noteq> [] \<and> list_all digit suffix \<and>
                 slug en = slugify rt (name en) @ ascii ''-'' @ suffix)"
    using time_suffix [OF clock] by (auto simp: sl unique_slug_def)
  ultimately show ?thesis by blast
qed

section \<open>Reading back what was written\<close>

text \<open>How the serializer lays a store out, at one record.\<close>

lemma serialized_store_example:
  \<open>SerializeJSONProperty T [] (JArr [JObj [(ascii ''slug'', JStr (ascii ''crabby-bills''))]])
     = ascii ''['' @ [0x0A] @
       ascii ''  {'' @ [0x0A] @
       ascii ''    "slug": "crabby-bills"'' @ [0x0A] @
       ascii ''  }'' @ [0x0A] @
       ascii '']''\<close>
  by (simp add: ascii_def QuoteJSONString_def quote_unit_def lead_surrogate_def
      trail_surrogate_def)

text \<open>
  C5. For every sequence of records, the store file written by \<open>writeJson\<close> and read again by
  \<open>readJson\<close> gives the sequence that was written, equal element by element and in the same
  order. This holds of the records of the data model, whatever their texts and lists, and
  of every sequence of values that are written the way they are read.
\<close>

theorem store_round_trip:
  assumes "ecma_json rt"
  shows "readJson rt (writeJson rt w file (JArr (map entry_json es))) file
           = Inr (JArr (map entry_json es)) \<and>
         (list_all (reads_back (Number_toString rt) (StringToNumber rt)) vs \<longrightarrow>
            readJson rt (writeJson rt w file (JArr vs)) file = Inr (JArr vs))"
proof
  show "readJson rt (writeJson rt w file (JArr (map entry_json es))) file
           = Inr (JArr (map entry_json es))"
    by (rule written_value_read [OF assms]) (simp add: entries_read_back)
  show "list_all (reads_back (Number_toString rt) (StringToNumber rt)) vs \<longrightarrow>
            readJson rt (writeJson rt w file (JArr vs)) file = Inr (JArr vs)"
    by (auto intro: written_value_read [OF assms])
qed

theorem store_round_trip_witness:
  "ecma_json ascii_platform \<and>
   list_all (reads_back (Number_toString ascii_platform) (StringToNumber ascii_platform))
     crabby_store \<and>
   readJson ascii_platform
     (writeJson ascii_platform empty_site (FILE_RESTAURANTS site)
        (JArr (map entry_json [crabby_entry (ascii ''crabby-bills'') (ascii ''$$'')])))
     (FILE_RESTAURANTS site)
     = Inr (JArr (map entry_json [crabby_entry (ascii ''crabby-bills'') (ascii ''$$'')])) \<and>
   readJson ascii_platform
     (writeJson ascii_platform empty_site (FILE_RESTAURANTS site) (JArr crabby_store))
     (FILE_RESTAURANTS site)
     = Inr (JArr crabby_store)"
  using store_round_trip [OF ascii_platform_json, of empty_site "FILE_RESTAURANTS site"
      "[crabby_entry (ascii ''crabby-bills'') (ascii ''$$'')]" crabby_store]
    ascii_platform_json crabby_store_reads_back
  by simp

text \<open>
  A number that is not finite is outside these values: it is written \<open>null\<close>, and \<open>null\<close> is
  what is read.
\<close>

lemma too_large_number_example:
  "JSON_parse ascii_platform (ascii ''[1e999]'') = Some (JArr [JNum PosInfinity])"
  by (simp add: ascii_platform_def ascii_def parse_eval num_unit_def)

lemma infinite_number_read_as_null:
  "ParseJSON N (SerializeJSONProperty T [] (JArr [JNum PosInfinity]) @ [0x0A])
     = Some (JArr [JNull])"
proof -
  have "SerializeJSONProperty T [] (JArr [JNum PosInfinity])
          = SerializeJSONProperty T [] (JArr [JNull])" by simp
  moreover have "reads_back T N (JArr [JNull])" by simp
  moreover have "list_all json_ws [0x0A]" by (simp add: json_ws_def)
  ultimately show ?thesis using parse_serialized [of T N "JArr [JNull]" "[0x0A]"] by simp
qed

end
